theory Spec2Isabelle
  imports Main "HOL-Library.Word"
begin

unbundle bit_operations_syntax

section \<open>Machine types and faults\<close>

type_synonym u8 = "8 word"
type_synonym u32 = "32 word"

text \<open>
  The C functions of the repository return \<^verbatim>\<open>void\<close> or a plain integer: none of them
  has an error channel. The faults below are not values the program hands to a caller;
  they mark the executions for which C gives no ordinary result: an integer division
  whose divisor is zero, an array read outside the array, and a busy-wait loop whose exit
  condition never becomes true.
\<close>

datatype fault = Division_by_zero | Index_out_of_bounds | Never_returns

text \<open>The C operator \<^verbatim>\<open>/\<close> on \<^verbatim>\<open>uint32_t\<close>: undefined for a zero divisor.\<close>

definition udiv :: "u32 \<Rightarrow> u32 \<Rightarrow> fault + u32" where
  "udiv a b = (if b = 0 then Inl Division_by_zero else Inr (a div b))"

section \<open>hal/systick.c\<close>

text \<open>
  The SysTick registers \<^verbatim>\<open>CTRL\<close>, \<^verbatim>\<open>LOAD\<close>, \<^verbatim>\<open>VAL\<close>, and the two statics of the module.
  Two more fields describe the hardware the module runs against:
  \<^item> \<open>pending\<close>: for each coming read of \<^verbatim>\<open>systick_counter\<close> by the main program, the
    number of SysTick interrupts that fire before that read; after the list is used up
    no further interrupt arrives;
  \<^item> \<open>val_reads\<close>: the values the hardware down-counter shows at the coming reads of
    \<^verbatim>\<open>SYSTICK->VAL\<close>; after the list is used up the counter stays where it is.
\<close>

record clock =
  CTRL :: u32
  LOAD :: u32
  VAL :: u32
  systick_counter :: u32
  us_per_tick :: u32
  pending :: "nat list"
  val_reads :: "u32 list"

definition SYSTICK_CTRL_ENABLE :: u32 where "SYSTICK_CTRL_ENABLE = push_bit 0 1"
definition SYSTICK_CTRL_TICKINT :: u32 where "SYSTICK_CTRL_TICKINT = push_bit 1 1"
definition SYSTICK_CTRL_CLKSOURCE :: u32 where "SYSTICK_CTRL_CLKSOURCE = push_bit 2 1"

definition SysTick_Handler :: "clock \<Rightarrow> clock" where
  "SysTick_Handler k = k\<lparr>systick_counter := systick_counter k + 1\<rparr>"

text \<open>The interrupts that fire before the next read of \<^verbatim>\<open>systick_counter\<close>.\<close>

definition irq_burst :: "clock \<Rightarrow> clock" where
  "irq_burst k =
     (case pending k of
        [] \<Rightarrow> k
      | d # ds \<Rightarrow> ((SysTick_Handler ^^ d) k)\<lparr>pending := ds\<rparr>)"

text \<open>The hardware counter moves on before the next read of \<^verbatim>\<open>SYSTICK->VAL\<close>.\<close>

definition hw_count :: "clock \<Rightarrow> clock" where
  "hw_count k =
     (case val_reads k of
        [] \<Rightarrow> k
      | v # vs \<Rightarrow> k\<lparr>VAL := v, val_reads := vs\<rparr>)"

definition systick_init :: "u32 \<Rightarrow> clock \<Rightarrow> fault + clock" where
  "systick_init cpu_freq_hz k =
     (case udiv cpu_freq_hz 1000 of
        Inl e \<Rightarrow> Inl e
      | Inr q \<Rightarrow>
          (let reload_value = q - 1 in
           case udiv 1000000 cpu_freq_hz of
             Inl e \<Rightarrow> Inl e
           | Inr per_tick \<Rightarrow>
               Inr (k\<lparr>us_per_tick := per_tick,
                      CTRL := 0,
                      LOAD := reload_value AND 0x00FFFFFF,
                      VAL := 0,
                      CTRL := SYSTICK_CTRL_ENABLE OR SYSTICK_CTRL_TICKINT OR SYSTICK_CTRL_CLKSOURCE,
                      systick_counter := 0\<rparr>)))"

text \<open>
  The loop of \<^verbatim>\<open>delay_ms\<close>: every evaluation of its condition reads the volatile
  counter anew. When the condition holds and no interrupt is left to arrive, the loop
  spins for ever.
\<close>

function delay_ms_loop :: "u32 \<Rightarrow> u32 \<Rightarrow> clock \<Rightarrow> fault + clock" where
  "delay_ms_loop start ms k =
     (let k' = irq_burst k in
      if systick_counter k' - start < ms
      then (if pending k = [] then Inl Never_returns else delay_ms_loop start ms k')
      else Inr k')"
  by pat_completeness auto
termination
  by (relation "measure (\<lambda>(start, ms, k). length (pending k))")
     (auto simp: irq_burst_def split: list.splits)

declare delay_ms_loop.simps [simp del]

definition delay_ms :: "u32 \<Rightarrow> clock \<Rightarrow> fault + clock" where
  "delay_ms ms k =
     (let k0 = irq_burst k; start = systick_counter k0 in delay_ms_loop start ms k0)"

definition millis :: "clock \<Rightarrow> u32 \<times> clock" where
  "millis k = (let k' = irq_burst k in (systick_counter k', k'))"

text \<open>The elapsed-ticks computation in the polling loop of \<^verbatim>\<open>delay_us\<close>.\<close>

definition elapsed_ticks :: "u32 \<Rightarrow> u32 \<Rightarrow> u32 \<Rightarrow> u32" where
  "elapsed_ticks start reload current =
     (if current \<le> start then start - current else start + (reload - current))"

function delay_us_loop :: "u32 \<Rightarrow> u32 \<Rightarrow> u32 \<Rightarrow> clock \<Rightarrow> fault + clock" where
  "delay_us_loop start reload ticks_needed k =
     (let k' = hw_count k; current = VAL k'; elapsed = elapsed_ticks start reload current in
      if elapsed \<ge> ticks_needed then Inr k'
      else if val_reads k = [] then Inl Never_returns
      else delay_us_loop start reload ticks_needed k')"
  by pat_completeness auto
termination
  by (relation "measure (\<lambda>(start, reload, ticks_needed, k). length (val_reads k))")
     (auto simp: hw_count_def split: list.splits)

declare delay_us_loop.simps [simp del]

text \<open>The part of \<^verbatim>\<open>delay_us\<close> after the millisecond share has been waited for.\<close>

definition delay_us_sub :: "u32 \<Rightarrow> clock \<Rightarrow> fault + clock" where
  "delay_us_sub us k =
     (if us = 0 then Inr k
      else
        (let k1 = hw_count k; start = VAL k1; reload = LOAD k1 in
         case udiv us (us_per_tick k1) of
           Inl e \<Rightarrow> Inl e
         | Inr ticks_needed \<Rightarrow> delay_us_loop start reload ticks_needed k1))"

definition delay_us :: "u32 \<Rightarrow> clock \<Rightarrow> fault + clock" where
  "delay_us us k =
     (if us \<ge> 1000
      then (let ms = us div 1000 in
            case delay_ms ms k of
              Inl e \<Rightarrow> Inl e
            | Inr k1 \<Rightarrow> delay_us_sub (us mod 1000) k1)
      else delay_us_sub us k)"

definition micros :: "clock \<Rightarrow> fault + (u32 \<times> clock)" where
  "micros k =
     (let k1 = irq_burst k;
          ms = systick_counter k1;
          k2 = hw_count k1;
          tick_val = VAL k2;
          reload = LOAD k2;
          ticks_elapsed = reload - tick_val in
      case udiv (ticks_elapsed * 1000) (reload + 1) of
        Inl e \<Rightarrow> Inl e
      | Inr us_in_current_ms \<Rightarrow> Inr ((ms * 1000) + us_in_current_ms, k2))"

section \<open>hal/gpio.h, hal/gpio.c\<close>

definition GPIO_PIN :: "u8 \<Rightarrow> u8 \<Rightarrow> u8" where
  "GPIO_PIN port pin = (push_bit 5 port) OR (pin AND 0x1F)"

definition GPIO_LOW :: u8 where "GPIO_LOW = 0"
definition GPIO_HIGH :: u8 where "GPIO_HIGH = 1"

text \<open>
  One GPIO port. \<^verbatim>\<open>FIOSET\<close> and \<^verbatim>\<open>FIOCLR\<close> are write-only: a write of a mask to
  \<^verbatim>\<open>FIOSET\<close> drives the pins of the mask high, a write to \<^verbatim>\<open>FIOCLR\<close> drives them low,
  and \<^verbatim>\<open>FIOPIN\<close> holds the pin levels. The pins written are taken to be configured as
  outputs, as \<^verbatim>\<open>gpio.h\<close> asks of the callers of \<^verbatim>\<open>gpio_write\<close>.
\<close>

record LPC_GPIO_TypeDef =
  FIODIR :: u32
  FIOMASK :: u32
  FIOPIN :: u32

definition write_FIOSET :: "u32 \<Rightarrow> LPC_GPIO_TypeDef \<Rightarrow> LPC_GPIO_TypeDef" where
  "write_FIOSET pin_mask r = r\<lparr>FIOPIN := FIOPIN r OR pin_mask\<rparr>"

definition write_FIOCLR :: "u32 \<Rightarrow> LPC_GPIO_TypeDef \<Rightarrow> LPC_GPIO_TypeDef" where
  "write_FIOCLR pin_mask r = r\<lparr>FIOPIN := FIOPIN r AND NOT pin_mask\<rparr>"

text \<open>The five ports \<^verbatim>\<open>LPC_GPIO0\<close> .. \<^verbatim>\<open>LPC_GPIO4\<close>, by number.\<close>

type_synonym gpio = "nat \<Rightarrow> LPC_GPIO_TypeDef"

definition get_gpio_port :: "u8 \<Rightarrow> nat" where
  "get_gpio_port pin =
     (let port = drop_bit 5 pin in
      if port = 0 then 0
      else if port = 1 then 1
      else if port = 2 then 2
      else if port = 3 then 3
      else if port = 4 then 4
      else 0)"

definition get_pin_mask :: "u8 \<Rightarrow> u32" where
  "get_pin_mask pin = (let pin_num = pin AND 0x1F in push_bit (unat pin_num) 1)"

definition gpio_write :: "u8 \<Rightarrow> u8 \<Rightarrow> gpio \<Rightarrow> gpio" where
  "gpio_write pin val g =
     (let port = get_gpio_port pin; pin_mask = get_pin_mask pin in
      if val = GPIO_HIGH then g(port := write_FIOSET pin_mask (g port))
      else g(port := write_FIOCLR pin_mask (g port)))"

definition gpio_read :: "u8 \<Rightarrow> gpio \<Rightarrow> u8" where
  "gpio_read pin g =
     (let port = get_gpio_port pin; pin_mask = get_pin_mask pin in
      if FIOPIN (g port) AND pin_mask \<noteq> 0 then GPIO_HIGH else GPIO_LOW)"

section \<open>main.c: pins and tables\<close>

text \<open>
  Modelled from the spec: \<^verbatim>\<open>gpio.h\<close> defines \<^verbatim>\<open>P0_0\<close>, \<^verbatim>\<open>P1_20\<close>, \<^verbatim>\<open>P1_21\<close>, \<^verbatim>\<open>P1_23\<close> and
  \<^verbatim>\<open>P2_0\<close> only, and asks for more to be added as needed; \<^verbatim>\<open>main.c\<close> also uses
  \<^verbatim>\<open>P0_1\<close> .. \<^verbatim>\<open>P0_7\<close>, \<^verbatim>\<open>P1_22\<close> and \<^verbatim>\<open>P2_1\<close> .. \<^verbatim>\<open>P2_3\<close>. Every pin identifier encodes
  a port/offset pair, so \<^verbatim>\<open>Px_y\<close> is \<^verbatim>\<open>GPIO_PIN(x, y)\<close> as for the five that are there.
\<close>

definition P :: "u8 \<Rightarrow> u8 \<Rightarrow> u8" where
  "P x y = GPIO_PIN x y"

definition BTN_COUNTDOWN :: u8 where "BTN_COUNTDOWN = P 1 20"
definition BTN_SET :: u8 where "BTN_SET = P 1 21"
definition BTN_START :: u8 where "BTN_START = P 1 22"
definition BTN_RESET :: u8 where "BTN_RESET = P 1 23"





section \<open>main.c: the display\<close>












section \<open>main.c: buttons and the countdown\<close>

datatype timer_state_t = STATE_SET | STATE_RUNNING | STATE_PAUSED | STATE_DONE

text \<open>The globals of \<^verbatim>\<open>main.c\<close>, and the clock they are read against.\<close>

record timer =
  state :: timer_state_t
  timer_value :: u32
  set_value :: u32
  last_tick :: u32
  btn_start_prev :: u8
  btn_countdown_prev :: u8
  btn_set_prev :: u8
  btn_reset_prev :: u8
  clk :: clock

text \<open>
  \<^verbatim>\<open>read_button\<close> gets the GPIO block as it stands at the moment of the read, the pin, the
  byte behind \<^verbatim>\<open>prev_state\<close> and the clock; it returns \<^verbatim>\<open>pressed\<close>, the byte stored
  behind \<^verbatim>\<open>prev_state\<close> and the clock after the debounce delay.
\<close>

definition read_button :: "gpio \<Rightarrow> u8 \<Rightarrow> u8 \<Rightarrow> clock \<Rightarrow> fault + (u8 \<times> u8 \<times> clock)" where
  "read_button g pin prev_state k =
     (let current = (if gpio_read pin g = 0 then 1 else 0 :: u8) in
      if current \<noteq> 0 \<and> prev_state = 0
      then (case delay_ms 50 k of
              Inl e \<Rightarrow> Inl e
            | Inr k' \<Rightarrow> Inr (1, current, k'))
      else Inr (0, current, k))"

definition timer_update :: "timer \<Rightarrow> timer" where
  "timer_update t =
     (let (current_time, k') = millis (clk t);
          t1 = t\<lparr>clk := k'\<rparr>
      in if state t1 = STATE_RUNNING \<and> current_time - last_tick t1 \<ge> 1000
         then (let t2 = t1\<lparr>last_tick := current_time\<rparr>
               in if timer_value t2 > 0
                  then t2\<lparr>timer_value := timer_value t2 - 1\<rparr>
                  else t2\<lparr>state := STATE_DONE\<rparr>)
         else t1)"

text \<open>The bodies of the four \<^verbatim>\<open>if(read_button(...))\<close> blocks of \<^verbatim>\<open>process_buttons\<close>.\<close>

definition on_countdown :: "timer \<Rightarrow> timer" where
  "on_countdown t =
     (if state t = STATE_SET then t\<lparr>timer_value := set_value t\<rparr> else t)"

definition on_set :: "timer \<Rightarrow> timer" where
  "on_set t =
     (if state t = STATE_SET
      then (let t1 = t\<lparr>set_value := set_value t + 10\<rparr>;
                t2 = (if set_value t1 > 5999 then t1\<lparr>set_value := 10\<rparr> else t1)
            in t2\<lparr>timer_value := set_value t2\<rparr>)
      else t)"

definition on_start :: "timer \<Rightarrow> timer" where
  "on_start t =
     (if state t = STATE_SET
      then (let t1 = t\<lparr>state := STATE_RUNNING, timer_value := set_value t\<rparr>;
                (now, k') = millis (clk t1)
            in t1\<lparr>last_tick := now, clk := k'\<rparr>)
      else if state t = STATE_RUNNING
      then t\<lparr>state := STATE_PAUSED\<rparr>
      else if state t = STATE_PAUSED
      then (let t1 = t\<lparr>state := STATE_RUNNING\<rparr>;
                (now, k') = millis (clk t1)
            in t1\<lparr>last_tick := now, clk := k'\<rparr>)
      else if state t = STATE_DONE
      then t\<lparr>state := STATE_SET, timer_value := set_value t\<rparr>
      else t)"

definition on_reset :: "timer \<Rightarrow> timer" where
  "on_reset t = t\<lparr>state := STATE_SET, timer_value := set_value t\<rparr>"

text \<open>
  The four blocks, each with its \<^verbatim>\<open>read_button\<close> call. Every block takes the GPIO block
  as it stands when the block samples its pin.
\<close>

definition countdown_block :: "gpio \<Rightarrow> timer \<Rightarrow> fault + timer" where
  "countdown_block g t =
     (case read_button g BTN_COUNTDOWN (btn_countdown_prev t) (clk t) of
        Inl e \<Rightarrow> Inl e
      | Inr (pressed, prev', k') \<Rightarrow>
          (let t1 = t\<lparr>btn_countdown_prev := prev', clk := k'\<rparr>
           in Inr (if pressed \<noteq> 0 then on_countdown t1 else t1)))"

definition set_block :: "gpio \<Rightarrow> timer \<Rightarrow> fault + timer" where
  "set_block g t =
     (case read_button g BTN_SET (btn_set_prev t) (clk t) of
        Inl e \<Rightarrow> Inl e
      | Inr (pressed, prev', k') \<Rightarrow>
          (let t1 = t\<lparr>btn_set_prev := prev', clk := k'\<rparr>
           in Inr (if pressed \<noteq> 0 then on_set t1 else t1)))"

definition start_block :: "gpio \<Rightarrow> timer \<Rightarrow> fault + timer" where
  "start_block g t =
     (case read_button g BTN_START (btn_start_prev t) (clk t) of
        Inl e \<Rightarrow> Inl e
      | Inr (pressed, prev', k') \<Rightarrow>
          (let t1 = t\<lparr>btn_start_prev := prev', clk := k'\<rparr>
           in Inr (if pressed \<noteq> 0 then on_start t1 else t1)))"

definition reset_block :: "gpio \<Rightarrow> timer \<Rightarrow> fault + timer" where
  "reset_block g t =
     (case read_button g BTN_RESET (btn_reset_prev t) (clk t) of
        Inl e \<Rightarrow> Inl e
      | Inr (pressed, prev', k') \<Rightarrow>
          (let t1 = t\<lparr>btn_reset_prev := prev', clk := k'\<rparr>
           in Inr (if pressed \<noteq> 0 then on_reset t1 else t1)))"

text \<open>The GPIO block as it stands at each of the four reads of one \<^verbatim>\<open>process_buttons\<close> call.\<close>

record samples =
  at_countdown :: gpio
  at_set :: gpio
  at_start :: gpio
  at_reset :: gpio

definition process_buttons :: "samples \<Rightarrow> timer \<Rightarrow> fault + timer" where
  "process_buttons ins t =
     (case countdown_block (at_countdown ins) t of
        Inl e \<Rightarrow> Inl e
      | Inr t1 \<Rightarrow>
          (case set_block (at_set ins) t1 of
             Inl e \<Rightarrow> Inl e
           | Inr t2 \<Rightarrow>
               (case start_block (at_start ins) t2 of
                  Inl e \<Rightarrow> Inl e
                | Inr t3 \<Rightarrow> reset_block (at_reset ins) t3)))"

text \<open>
  The initialisers of the globals, and the state in which \<^verbatim>\<open>main\<close> enters its loop:
  \<^verbatim>\<open>systick_init(12000000)\<close>, then \<^verbatim>\<open>timer_value = set_value\<close>.
\<close>

definition globals :: "clock \<Rightarrow> timer" where
  "globals k =
     \<lparr>state = STATE_SET, timer_value = 0, set_value = 60, last_tick = 0,
      btn_start_prev = 0, btn_countdown_prev = 0, btn_set_prev = 0, btn_reset_prev = 0,
      clk = k\<rparr>"

definition boot :: "clock \<Rightarrow> fault + timer" where
  "boot k0 =
     (case systick_init 12000000 k0 of
        Inl e \<Rightarrow> Inl e
      | Inr k \<Rightarrow> (let t = globals k in Inr (t\<lparr>timer_value := set_value t\<rparr>)))"

text \<open>The states the loop of \<^verbatim>\<open>main\<close> can be in, whatever the buttons and the clock do.\<close>

inductive reachable :: "timer \<Rightarrow> bool" where
  reach_boot: "boot k0 = Inr t \<Longrightarrow> reachable t"
| reach_buttons: "reachable t \<Longrightarrow> process_buttons ins t = Inr t' \<Longrightarrow> reachable t'"
| reach_update: "reachable t \<Longrightarrow> reachable (timer_update t)"

text \<open>The ranges of the data model.\<close>

definition timer_inv :: "timer \<Rightarrow> bool" where
  "timer_inv t \<longleftrightarrow> 10 \<le> set_value t \<and> set_value t \<le> 5999 \<and> timer_value t \<le> 5999"

section \<open>Quantities and concrete states used in the statements\<close>

text \<open>
  The interrupts that fire between an earlier clock state and a later one: one
  interrupt is one millisecond of true time.
\<close>

definition irqs_between :: "clock \<Rightarrow> clock \<Rightarrow> nat" where
  "irqs_between k k' = sum_list (take (length (pending k) - length (pending k')) (pending k))"

text \<open>The term \<^verbatim>\<open>us_in_current_ms\<close> of \<^verbatim>\<open>micros\<close>, on the registers it was computed from.\<close>

definition us_in_current_ms :: "clock \<Rightarrow> u32" where
  "us_in_current_ms k = ((LOAD k - VAL k) * 1000) div (LOAD k + 1)"

text \<open>The clock before \<^verbatim>\<open>systick_init\<close>, with a hardware that stands still.\<close>

definition power_on :: clock where
  "power_on = \<lparr>CTRL = 0, LOAD = 0, VAL = 0, systick_counter = 0, us_per_tick = 0,
     pending = [], val_reads = []\<rparr>"

text \<open>A 12 MHz clock three milliseconds before the counter wraps, polled faster than it ticks.\<close>

definition k_wrap :: clock where
  "k_wrap = \<lparr>CTRL = 7, LOAD = 11999, VAL = 0, systick_counter = 0xFFFFFFFD, us_per_tick = 0,
     pending = [0, 1, 1, 1, 1, 1, 1, 1], val_reads = []\<rparr>"

text \<open>A 12 MHz clock after 4294967 ms, halfway through the millisecond.\<close>

definition k_71min :: clock where
  "k_71min = \<lparr>CTRL = 7, LOAD = 11999, VAL = 0, systick_counter = 4294967, us_per_tick = 0,
     pending = [], val_reads = [5999]\<rparr>"

text \<open>
  A running countdown whose last second boundary was taken at 0 ms, read at 1500 ms.
\<close>

definition t_late :: timer where
  "t_late =
     \<lparr>state = STATE_RUNNING, timer_value = 10, set_value = 60, last_tick = 0,
      btn_start_prev = 0, btn_countdown_prev = 0, btn_set_prev = 0, btn_reset_prev = 0,
      clk = \<lparr>CTRL = 7, LOAD = 11999, VAL = 0, systick_counter = 1500, us_per_tick = 0,
              pending = [], val_reads = []\<rparr>\<rparr>"

text \<open>
  A running countdown with one second left, read at 1000 ms and again at 2000 ms.
\<close>

definition t_last_second :: timer where
  "t_last_second =
     \<lparr>state = STATE_RUNNING, timer_value = 1, set_value = 60, last_tick = 0,
      btn_start_prev = 0, btn_countdown_prev = 0, btn_set_prev = 0, btn_reset_prev = 0,
      clk = \<lparr>CTRL = 7, LOAD = 11999, VAL = 0, systick_counter = 1000, us_per_tick = 0,
              pending = [0, 1000], val_reads = []\<rparr>\<rparr>"

text \<open>
  The GPIO block with every line high (the buttons are wired active-low with pull-ups:
  nothing is pressed), and with one line pulled low.
\<close>

definition released :: gpio where
  "released = (\<lambda>port. \<lparr>FIODIR = 0, FIOMASK = 0, FIOPIN = 0xFFFFFFFF\<rparr>)"

definition pressing :: "u8 \<Rightarrow> gpio" where
  "pressing pin = gpio_write pin GPIO_LOW released"

text \<open>Consecutive polls of one button, one GPIO snapshot per poll.\<close>

fun polls :: "gpio list \<Rightarrow> u8 \<Rightarrow> u8 \<Rightarrow> clock \<Rightarrow> fault + (u8 list \<times> u8 \<times> clock)" where
  "polls [] pin prev_state k = Inr ([], prev_state, k)"
| "polls (g # gs) pin prev_state k =
     (case read_button g pin prev_state k of
        Inl e \<Rightarrow> Inl e
      | Inr (pressed, prev', k') \<Rightarrow>
          (case polls gs pin prev' k' of
             Inl e \<Rightarrow> Inl e
           | Inr (flags, prev'', k'') \<Rightarrow> Inr (pressed # flags, prev'', k'')))"

text \<open>A clock on which every debounce delay of 50 ms ends at its first poll.\<close>

definition k_ticking :: clock where
  "k_ticking = \<lparr>CTRL = 7, LOAD = 11999, VAL = 0, systick_counter = 0, us_per_tick = 0,
     pending = [0, 50, 0, 50, 0, 50, 0, 50], val_reads = []\<rparr>"

text \<open>The Set state at the top of the range.\<close>

definition t_top :: timer where
  "t_top =
     \<lparr>state = STATE_SET, timer_value = 5990, set_value = 5990, last_tick = 0,
      btn_start_prev = 0, btn_countdown_prev = 0, btn_set_prev = 0, btn_reset_prev = 0,
      clk = k_ticking\<rparr>"

text \<open>The clock after the debounce delays of two presses.\<close>

definition k_two_presses :: clock where
  "k_two_presses = k_ticking\<lparr>systick_counter := 100, pending := [0, 50, 0, 50]\<rparr>"

text \<open>One \<^verbatim>\<open>process_buttons\<close> call during which only Reset, or only Set, is held down.\<close>

definition reset_press :: samples where
  "reset_press = \<lparr>at_countdown = released, at_set = released, at_start = released,
     at_reset = pressing BTN_RESET\<rparr>"

definition set_press :: samples where
  "set_press = \<lparr>at_countdown = released, at_set = pressing BTN_SET, at_start = released,
     at_reset = released\<rparr>"

text \<open>The ticking clock after one debounce delay.\<close>

definition k_debounced :: clock where
  "k_debounced = k_ticking\<lparr>systick_counter := 50, pending := [0, 50, 0, 50, 0, 50]\<rparr>"

text \<open>A countdown in a given state with a given remaining time, on the ticking clock.\<close>

definition t_in :: "timer_state_t \<Rightarrow> u32 \<Rightarrow> timer" where
  "t_in s v =
     \<lparr>state = s, timer_value = v, set_value = 60, last_tick = 0,
      btn_start_prev = 0, btn_countdown_prev = 0, btn_set_prev = 0, btn_reset_prev = 0,
      clk = k_ticking\<rparr>"

text \<open>
  A finished countdown on a clock that is polled once per millisecond for 50 ms and stands
  still afterwards.
\<close>

definition t_polled :: timer where
  "t_polled =
     \<lparr>state = STATE_DONE, timer_value = 0, set_value = 60, last_tick = 0,
      btn_start_prev = 0, btn_countdown_prev = 0, btn_set_prev = 0, btn_reset_prev = 0,
      clk = \<lparr>CTRL = 7, LOAD = 11999, VAL = 0, systick_counter = 0, us_per_tick = 0,
              pending = 0 # replicate 50 1, val_reads = []\<rparr>\<rparr>"

text \<open>The state in which \<^verbatim>\<open>main\<close> enters its loop, and the state after one Set press.\<close>

definition t_boot :: timer where
  "t_boot =
     \<lparr>state = STATE_SET, timer_value = 60, set_value = 60, last_tick = 0,
      btn_start_prev = 0, btn_countdown_prev = 0, btn_set_prev = 0, btn_reset_prev = 0,
      clk = k_ticking\<rparr>"

definition t_70 :: timer where
  "t_70 = t_boot\<lparr>timer_value := 70, set_value := 70, btn_set_prev := 1,
     clk := k_ticking\<lparr>systick_counter := 50, pending := [0, 50, 0, 50, 0, 50]\<rparr>\<rparr>"

text \<open>The Set state at the bottom of the range.\<close>

definition t_ten :: timer where
  "t_ten =
     \<lparr>state = STATE_SET, timer_value = 10, set_value = 10, last_tick = 0,
      btn_start_prev = 0, btn_countdown_prev = 0, btn_set_prev = 0, btn_reset_prev = 0,
      clk = k_ticking\<rparr>"

section \<open>Properties of the clock\<close>

lemma funpow_SysTick_Handler:
  "(SysTick_Handler ^^ n) k = k\<lparr>systick_counter := systick_counter k + of_nat n\<rparr>"
  by (induction n) (simp_all add: SysTick_Handler_def add.assoc)

lemma irq_burst_Nil: "pending k = [] \<Longrightarrow> irq_burst k = k"
  by (simp add: irq_burst_def)

lemma irq_burst_Cons:
  "pending k = d # ds \<Longrightarrow>
   irq_burst k = k\<lparr>systick_counter := systick_counter k + of_nat d, pending := ds\<rparr>"
  by (simp add: irq_burst_def funpow_SysTick_Handler)

lemma LOAD_irq_burst [simp]: "LOAD (irq_burst k) = LOAD k"
  by (cases "pending k") (simp_all add: irq_burst_Nil irq_burst_Cons)

lemma LOAD_hw_count [simp]: "LOAD (hw_count k) = LOAD k"
  by (simp add: hw_count_def split: list.splits)

lemma systick_counter_hw_count [simp]: "systick_counter (hw_count k) = systick_counter k"
  by (simp add: hw_count_def split: list.splits)

lemma unat_sub_of_nat:
  assumes "n1 \<le> n2"
  shows "unat ((c + of_nat n2) - (c + of_nat n1) :: u32) = (n2 - n1) mod 2 ^ 32"
proof -
  have "(c + of_nat n2) - (c + of_nat n1) = (of_nat (n2 - n1) :: u32)"
    using assms by (simp add: of_nat_diff)
  then show ?thesis by (simp add: unat_of_nat)
qed

lemma systick_init_eq:
  "systick_init f k =
     (if f = 0 then Inl Division_by_zero
      else Inr (k\<lparr>us_per_tick := 1000000 div f, CTRL := 7,
                  LOAD := (f div 1000 - 1) AND 0x00FFFFFF, VAL := 0, systick_counter := 0\<rparr>))"
  by (simp add: systick_init_def udiv_def SYSTICK_CTRL_ENABLE_def SYSTICK_CTRL_TICKINT_def
      SYSTICK_CTRL_CLKSOURCE_def)

subsection \<open>The wait of \<^verbatim>\<open>delay_ms\<close>\<close>

text \<open>
  When the loop is left, the counter has moved on by the interrupts used up, and the
  exit condition holds.
\<close>

lemma delay_ms_loop_waits:
  "delay_ms_loop start ms k = Inr k' \<Longrightarrow>
   \<exists>used. pending k = used @ pending k' \<and>
          systick_counter k' = systick_counter k + of_nat (sum_list used) \<and>
          \<not> (systick_counter k' - start < ms)"
proof (induction start ms k rule: delay_ms_loop.induct)
  case (1 start ms k)
  show ?case
  proof (cases "pending k")
    case Nil
    with "1.prems" show ?thesis
      by (simp add: delay_ms_loop.simps [of start ms k] irq_burst_Nil split: if_splits)
  next
    case (Cons d ds)
    let ?k1 = "irq_burst k"
    have k1: "?k1 = k\<lparr>systick_counter := systick_counter k + of_nat d, pending := ds\<rparr>"
      using Cons by (rule irq_burst_Cons)
    show ?thesis
    proof (cases "systick_counter ?k1 - start < ms")
      case True
      with "1.prems" Cons have rec: "delay_ms_loop start ms ?k1 = Inr k'"
        by (simp add: delay_ms_loop.simps [of start ms k])
      from "1.IH" [OF refl True _ rec] Cons
      obtain used where u: "pending ?k1 = used @ pending k'"
        "systick_counter k' = systick_counter ?k1 + of_nat (sum_list used)"
        "\<not> (systick_counter k' - start < ms)" by auto
      show ?thesis
        by (rule exI [of _ "d # used"]) (use u k1 Cons in \<open>simp add: add.assoc\<close>)
    next
      case False
      with "1.prems" have "k' = ?k1"
        by (simp add: delay_ms_loop.simps [of start ms k])
      then show ?thesis
        by (intro exI [of _ "[d]"]) (use False k1 Cons in simp)
    qed
  qed
qed

lemma delay_ms_waits:
  assumes "delay_ms ms k = Inr k'"
  shows "unat ms \<le> irqs_between (irq_burst k) k'"
proof -
  let ?k0 = "irq_burst k"
  from assms have "delay_ms_loop (systick_counter ?k0) ms ?k0 = Inr k'"
    by (simp add: delay_ms_def Let_def)
  from delay_ms_loop_waits [OF this]
  obtain used where u: "pending ?k0 = used @ pending k'"
    "systick_counter k' = systick_counter ?k0 + of_nat (sum_list used)"
    "\<not> (systick_counter k' - systick_counter ?k0 < ms)" by auto
  have "unat ms \<le> unat (systick_counter k' - systick_counter ?k0)"
    using u(3) by (simp add: word_less_nat_alt)
  also have "systick_counter k' - systick_counter ?k0 = of_nat (sum_list used)"
    using u(2) by simp
  also have "unat (of_nat (sum_list used) :: u32) \<le> sum_list used"
    by (simp add: unat_of_nat)
  finally have "unat ms \<le> sum_list used" .
  moreover have "irqs_between ?k0 k' = sum_list used"
    using u(1) by (simp add: irqs_between_def)
  ultimately show ?thesis by simp
qed

text \<open>
  The loop is left when the program polls at least once per millisecond and the
  interrupts keep coming for long enough.
\<close>

lemma delay_ms_loop_returns:
  "\<forall>d\<in>set (pending k). d \<le> 1 \<Longrightarrow>
   unat (systick_counter k - start) < unat ms \<Longrightarrow>
   unat ms - unat (systick_counter k - start) \<le> sum_list (pending k) \<Longrightarrow>
   \<exists>k'. delay_ms_loop start ms k = Inr k'"
proof (induction "pending k" arbitrary: k)
  case Nil
  then show ?case by simp
next
  case (Cons d ds)
  let ?k1 = "irq_burst k"
  let ?e = "unat (systick_counter k - start)"
  have pk: "pending k = d # ds" using Cons.hyps(2) by simp
  have k1: "?k1 = k\<lparr>systick_counter := systick_counter k + of_nat d, pending := ds\<rparr>"
    using pk by (rule irq_burst_Cons)
  have d1: "d \<le> 1" using Cons.prems(1) pk by simp
  have ms: "unat ms < 2 ^ 32" using unsigned_less [of ms, where 'a = nat] by simp
  have eq: "systick_counter ?k1 - start = (systick_counter k - start) + of_nat d"
    using k1 by simp
  have dd: "unat (of_nat d :: u32) = d"
    using d1 by (simp add: unat_of_nat)
  have "unat ((systick_counter k - start) + (of_nat d :: u32))
          = (?e + unat (of_nat d :: u32)) mod 2 ^ LENGTH(32)"
    by (rule unat_word_ariths(1))
  then have e1: "unat (systick_counter ?k1 - start) = ?e + d"
    unfolding eq dd using d1 Cons.prems(2) ms by simp
  show ?case
  proof (cases "systick_counter ?k1 - start < ms")
    case True
    then have lt: "unat (systick_counter ?k1 - start) < unat ms"
      by (simp add: word_less_nat_alt)
    have "\<exists>k'. delay_ms_loop start ms ?k1 = Inr k'"
    proof (rule Cons.hyps(1))
      show "ds = pending ?k1" using k1 by simp
      show "\<forall>d\<in>set (pending ?k1). d \<le> 1" using Cons.prems(1) pk k1 by simp
      show "unat (systick_counter ?k1 - start) < unat ms" by (rule lt)
      show "unat ms - unat (systick_counter ?k1 - start) \<le> sum_list (pending ?k1)"
        using Cons.prems(3) pk k1 e1 by simp
    qed
    then show ?thesis
      using True pk by (simp add: delay_ms_loop.simps [of start ms k])
  next
    case False
    then show ?thesis by (simp add: delay_ms_loop.simps [of start ms k])
  qed
qed

lemma delay_ms_returns:
  assumes "\<forall>d\<in>set (pending k). d \<le> 1" and "unat ms \<le> sum_list (pending (irq_burst k))"
  shows "\<exists>k'. delay_ms ms k = Inr k'"
proof (cases "ms = 0")
  case True
  then show ?thesis
    by (simp add: delay_ms_def Let_def delay_ms_loop.simps [of _ 0])
next
  case False
  let ?k0 = "irq_burst k"
  have sub: "set (pending ?k0) \<subseteq> set (pending k)"
    by (cases "pending k") (auto simp: irq_burst_Nil irq_burst_Cons)
  have "\<exists>k'. delay_ms_loop (systick_counter ?k0) ms ?k0 = Inr k'"
  proof (rule delay_ms_loop_returns)
    show "\<forall>d\<in>set (pending ?k0). d \<le> 1" using assms(1) sub by blast
    show "unat (systick_counter ?k0 - systick_counter ?k0) < unat ms"
      using False by (simp add: unat_gt_0)
    show "unat ms - unat (systick_counter ?k0 - systick_counter ?k0) \<le> sum_list (pending ?k0)"
      using assms(2) by simp
  qed
  then show ?thesis by (simp add: delay_ms_def Let_def)
qed

subsection \<open>The microsecond query\<close>

lemma micros_eq:
  "LOAD k + 1 \<noteq> 0 \<Longrightarrow>
   micros k = Inr (systick_counter (hw_count (irq_burst k)) * 1000
                   + us_in_current_ms (hw_count (irq_burst k)), hw_count (irq_burst k))"
  by (simp add: micros_def Let_def udiv_def us_in_current_ms_def)

lemma unat_ms_us:
  "unat (ms * 1000 + us :: u32) = (unat ms * 1000 + unat us) mod 2 ^ 32"
  by (simp add: unat_word_ariths mod_simps)

lemma us_in_current_ms_bound:
  assumes "VAL k \<le> LOAD k" and "LOAD k + 1 \<noteq> 0"
  shows "unat (us_in_current_ms k) < 1000"
proof -
  let ?L = "unat (LOAD k)" and ?V = "unat (VAL k)"
  have t: "unat (LOAD k - VAL k) = ?L - ?V"
    using assms(1) by (simp add: unat_sub)
  have l1: "unat (LOAD k + 1) = ?L + 1"
    using assms(2) unatSuc [of "LOAD k"] by (simp add: add.commute)
  have "unat ((LOAD k - VAL k) * 1000)
          = unat (LOAD k - VAL k) * unat (1000 :: u32) mod 2 ^ LENGTH(32)"
    by (rule unat_word_ariths(2))
  also have "\<dots> = ((?L - ?V) * 1000) mod 2 ^ 32"
    unfolding t by simp
  also have "\<dots> \<le> (?L - ?V) * 1000" by (rule mod_less_eq_dividend)
  also have "\<dots> < 1000 * (?L + 1)" by simp
  finally have "unat ((LOAD k - VAL k) * 1000) div (?L + 1) < 1000"
    by (rule less_mult_imp_div_less)
  then show ?thesis
    by (simp add: us_in_current_ms_def unat_div l1)
qed

section \<open>Claims about the clock\<close>

text \<open>
  C3, as stated: a call of the clock's init operation with frequency zero is rejected with
  a configuration error, and the divisions \<^verbatim>\<open>cpu_freq_hz / 1000\<close> and
  \<^verbatim>\<open>1000000 / cpu_freq_hz\<close> are never performed with a zero divisor.
  The code has no check and no error result. With frequency zero the first division is
  \<^verbatim>\<open>0 / 1000\<close>, and the second one is reached and divides 1000000 by zero.
\<close>

theorem systick_init_zero_frequency_counterexample:
  "udiv 0 1000 = Inr 0 \<and> udiv 1000000 0 = Inl Division_by_zero \<and>
   systick_init 0 power_on = Inl Division_by_zero"
  by (simp add: systick_init_def udiv_def)

text \<open>
  C3, amended: \<^verbatim>\<open>systick_init\<close> rejects nothing. For every frequency other than zero it
  completes, with \<^verbatim>\<open>us_per_tick = 1000000 / f\<close>, \<^verbatim>\<open>LOAD = ((f / 1000) - 1) & 0xFFFFFF\<close>,
  \<^verbatim>\<open>VAL = 0\<close>, \<^verbatim>\<open>CTRL = 7\<close> and the millisecond counter at 0; for frequency zero its
  division by the frequency has a zero divisor, and it has no other outcome.
\<close>

theorem systick_init_no_error_path:
  "systick_init f k =
     (if f = 0 then Inl Division_by_zero
      else Inr (k\<lparr>us_per_tick := 1000000 div f, CTRL := 7,
                  LOAD := (f div 1000 - 1) AND 0x00FFFFFF, VAL := 0, systick_counter := 0\<rparr>))"
  by (rule systick_init_eq)

theorem systick_init_no_error_path_witness:
  "systick_init 12000000 power_on =
     Inr \<lparr>CTRL = 7, LOAD = 11999, VAL = 0, systick_counter = 0, us_per_tick = 0,
          pending = [], val_reads = []\<rparr>"
  using systick_init_no_error_path [of 12000000 power_on] by (simp add: power_on_def)

text \<open>
  C4: for every requested duration below a millisecond \<^verbatim>\<open>delay_us\<close> derives the ticks
  to wait for from the configured frequency, never flooring them to zero and never
  dividing by a zero \<^verbatim>\<open>us_per_tick\<close>, so that the delay never undershoots.
  The code at two inputs. After \<^verbatim>\<open>systick_init(12000000)\<close>, the call of \<^verbatim>\<open>main\<close>, one
  tick is shorter than a microsecond, \<^verbatim>\<open>us_per_tick\<close> is 0 and \<^verbatim>\<open>delay_us(500)\<close>
  divides by it. After \<^verbatim>\<open>systick_init(400000)\<close>, \<^verbatim>\<open>us_per_tick\<close> is 2,
  \<^verbatim>\<open>delay_us(1)\<close> needs \<^verbatim>\<open>1 / 2 = 0\<close> ticks and returns at its first poll, on a
  hardware counter that has not moved at all.
\<close>

theorem delay_us_divides_by_zero:
  "systick_init 12000000 power_on = Inr (power_on\<lparr>CTRL := 7, LOAD := 11999\<rparr>) \<and>
   us_per_tick (power_on\<lparr>CTRL := 7, LOAD := 11999\<rparr>) = 0 \<and>
   delay_us 500 (power_on\<lparr>CTRL := 7, LOAD := 11999\<rparr>) = Inl Division_by_zero \<and>
   systick_init 400000 power_on = Inr (power_on\<lparr>CTRL := 7, LOAD := 399, us_per_tick := 2\<rparr>) \<and>
   delay_us 1 (power_on\<lparr>CTRL := 7, LOAD := 399, us_per_tick := 2\<rparr>)
     = Inr (power_on\<lparr>CTRL := 7, LOAD := 399, us_per_tick := 2\<rparr>)"
  by (simp add: systick_init_eq power_on_def delay_us_def delay_us_sub_def udiv_def hw_count_def
      delay_us_loop.simps elapsed_ticks_def word_le_nat_alt)

text \<open>
  C5: for two readings \<open>a\<close>, then \<open>b\<close>, of the millisecond counter, taken after \<open>n1\<close> and
  after \<open>n2 \<ge> n1\<close> interrupts, the 32-bit difference \<open>b - a\<close> is the true elapsed time
  \<open>n2 - n1\<close> modulo \<open>2^32\<close>, hence the true elapsed time itself over any interval shorter
  than one period of the counter, whether or not the counter wrapped in between.
  Consequently \<^verbatim>\<open>delay_ms(ms)\<close>, when it returns, has waited for at least \<open>ms\<close>
  interrupts; and it does return when the loop polls at least once per millisecond and
  the interrupts keep coming.
\<close>

theorem tick_difference_is_elapsed:
  "(n1 \<le> n2 \<longrightarrow>
      unat (systick_counter ((SysTick_Handler ^^ n2) k)
            - systick_counter ((SysTick_Handler ^^ n1) k)) = (n2 - n1) mod 2 ^ 32)
   \<and> (n1 \<le> n2 \<and> n2 - n1 < 2 ^ 32 \<longrightarrow>
      unat (systick_counter ((SysTick_Handler ^^ n2) k)
            - systick_counter ((SysTick_Handler ^^ n1) k)) = n2 - n1)
   \<and> (delay_ms ms k = Inr k' \<longrightarrow> unat ms \<le> irqs_between (irq_burst k) k')
   \<and> ((\<forall>d\<in>set (pending k). d \<le> 1) \<and> unat ms \<le> sum_list (pending (irq_burst k)) \<longrightarrow>
      (\<exists>k'. delay_ms ms k = Inr k'))"
proof -
  have r: "systick_counter ((SysTick_Handler ^^ n) k) = systick_counter k + of_nat n" for n
    by (simp add: funpow_SysTick_Handler)
  have A: "unat (systick_counter ((SysTick_Handler ^^ n2) k)
            - systick_counter ((SysTick_Handler ^^ n1) k)) = (n2 - n1) mod 2 ^ 32"
    if "n1 \<le> n2"
    unfolding r using that by (rule unat_sub_of_nat)
  have B: "unat (systick_counter ((SysTick_Handler ^^ n2) k)
            - systick_counter ((SysTick_Handler ^^ n1) k)) = n2 - n1"
    if "n1 \<le> n2" "n2 - n1 < 2 ^ 32"
    using A [OF that(1)] that(2) by simp
  have C: "unat ms \<le> irqs_between (irq_burst k) k'" if "delay_ms ms k = Inr k'"
    using that by (rule delay_ms_waits)
  have D: "\<exists>k'. delay_ms ms k = Inr k'"
    if "\<forall>d\<in>set (pending k). d \<le> 1" "unat ms \<le> sum_list (pending (irq_burst k))"
    using that by (rule delay_ms_returns)
  show ?thesis using A B C D by blast
qed

theorem tick_difference_is_elapsed_witness:
  "(1 :: nat) \<le> 6 \<and> (6 :: nat) - 1 < 2 ^ 32 \<and>
   systick_counter ((SysTick_Handler ^^ 1) k_wrap) = 0xFFFFFFFE \<and>
   systick_counter ((SysTick_Handler ^^ 6) k_wrap) = 3 \<and>
   unat (3 - 0xFFFFFFFE :: u32) = 6 - 1 \<and>
   list_all (\<lambda>d. d \<le> 1) (pending k_wrap) \<and>
   unat (5 :: u32) \<le> sum_list (pending (irq_burst k_wrap)) \<and>
   delay_ms 5 k_wrap = Inr (k_wrap\<lparr>systick_counter := 2, pending := [1, 1]\<rparr>) \<and>
   unat (5 :: u32) \<le> irqs_between (irq_burst k_wrap) (k_wrap\<lparr>systick_counter := 2, pending := [1, 1]\<rparr>)"
  using tick_difference_is_elapsed [of 1 6 k_wrap 5 "k_wrap\<lparr>systick_counter := 2, pending := [1, 1]\<rparr>"]
  by (simp add: k_wrap_def funpow_SysTick_Handler irq_burst_def delay_ms_def
      delay_ms_loop.simps SysTick_Handler_def irqs_between_def)

text \<open>
  C10: \<^verbatim>\<open>micros\<close> returns \<^verbatim>\<open>systick_counter * 1000 + us_in_current_ms\<close> reduced modulo
  \<open>2^32\<close>. With the down-counter inside its period the second term is below 1000, so the
  result is exact up to 4294966 ms and has wrapped at 4294968 ms (71.6 minutes), where it
  reads 704 plus the microseconds of the current millisecond.
\<close>

theorem micros_wraps_mod_2_32:
  assumes "LOAD k + 1 \<noteq> 0"
  shows "\<exists>r k2. micros k = Inr (r, k2) \<and> k2 = hw_count (irq_burst k) \<and>
     unat r = (unat (systick_counter k2) * 1000 + unat (us_in_current_ms k2)) mod 2 ^ 32 \<and>
     (VAL k2 \<le> LOAD k2 \<longrightarrow> unat (us_in_current_ms k2) < 1000) \<and>
     (VAL k2 \<le> LOAD k2 \<and> unat (systick_counter k2) \<le> 4294966 \<longrightarrow>
        unat r = unat (systick_counter k2) * 1000 + unat (us_in_current_ms k2)) \<and>
     (VAL k2 \<le> LOAD k2 \<and> systick_counter k2 = 4294968 \<longrightarrow>
        unat r = 704 + unat (us_in_current_ms k2))"
proof -
  let ?k2 = "hw_count (irq_burst k)"
  let ?r = "systick_counter ?k2 * 1000 + us_in_current_ms ?k2"
  have m: "micros k = Inr (?r, ?k2)" using assms by (rule micros_eq)
  have u: "unat ?r = (unat (systick_counter ?k2) * 1000 + unat (us_in_current_ms ?k2)) mod 2 ^ 32"
    by (rule unat_ms_us)
  have L: "LOAD ?k2 + 1 \<noteq> 0" using assms by simp
  have b: "VAL ?k2 \<le> LOAD ?k2 \<Longrightarrow> unat (us_in_current_ms ?k2) < 1000"
    using us_in_current_ms_bound [of ?k2] L by blast
  have c: "unat ?r = unat (systick_counter ?k2) * 1000 + unat (us_in_current_ms ?k2)"
    if "VAL ?k2 \<le> LOAD ?k2" "unat (systick_counter ?k2) \<le> 4294966"
    using u b [OF that(1)] that(2) by simp
  have w: "(4294968 * 1000 + x) mod 2 ^ 32 = 704 + x" if "x < 1000" for x :: nat
  proof -
    have "4294968 * 1000 + x = (704 + x) + 2 ^ 32" by simp
    then have "(4294968 * 1000 + x) mod 2 ^ 32 = (704 + x) mod 2 ^ 32"
      by (simp only: mod_add_self2)
    then show ?thesis using that by simp
  qed
  have d: "unat ?r = 704 + unat (us_in_current_ms ?k2)"
    if "VAL ?k2 \<le> LOAD ?k2" "systick_counter ?k2 = 4294968"
  proof -
    have "unat (systick_counter ?k2) = 4294968" using that(2) by simp
    then have "unat ?r = (4294968 * 1000 + unat (us_in_current_ms ?k2)) mod 2 ^ 32"
      using u by simp
    then show ?thesis using w [OF b [OF that(1)]] by simp
  qed
  show ?thesis using m u b c d by blast
qed

theorem micros_wraps_mod_2_32_witness:
  "LOAD k_71min + 1 \<noteq> 0 \<and>
   micros k_71min = Inr (204, k_71min\<lparr>VAL := 5999, val_reads := []\<rparr>) \<and>
   us_in_current_ms (k_71min\<lparr>VAL := 5999, val_reads := []\<rparr>) = 500 \<and>
   (4294967 * 1000 + 500) mod 2 ^ 32 = (204 :: nat)"
  using micros_wraps_mod_2_32 [of k_71min]
  by (simp add: k_71min_def micros_def udiv_def irq_burst_def hw_count_def us_in_current_ms_def)

section \<open>Claims about the per-second update\<close>

text \<open>
  C1, as stated: when the state is Running and at least 1000 ms have passed since
  \<^verbatim>\<open>last_tick\<close>, the update advances \<^verbatim>\<open>last_tick\<close> by a multiple of 1000.
  The code at a countdown read 1500 ms after its last second boundary: \<^verbatim>\<open>last_tick\<close>
  moves by 1500.
\<close>

theorem timer_update_drift_counterexample:
  "state t_late = STATE_RUNNING \<and>
   fst (millis (clk t_late)) - last_tick t_late = 1500 \<and>
   last_tick (timer_update t_late) = 1500 \<and>
   \<not> (1000 dvd unat (last_tick (timer_update t_late) - last_tick t_late))"
  by (simp add: t_late_def timer_update_def millis_def irq_burst_def)

text \<open>
  C1, amended: when the state is Running and at least 1000 ms have passed since
  \<^verbatim>\<open>last_tick\<close>, the update sets \<^verbatim>\<open>last_tick\<close> to the value \<^verbatim>\<open>millis()\<close> has just
  returned.
\<close>

theorem timer_update_sets_last_tick_to_now:
  "state t = STATE_RUNNING \<Longrightarrow> 1000 \<le> fst (millis (clk t)) - last_tick t \<Longrightarrow>
   last_tick (timer_update t) = fst (millis (clk t))"
  by (simp add: timer_update_def millis_def Let_def)

theorem timer_update_sets_last_tick_to_now_witness:
  "state t_late = STATE_RUNNING \<and> 1000 \<le> fst (millis (clk t_late)) - last_tick t_late \<and>
   fst (millis (clk t_late)) = 1500 \<and> last_tick (timer_update t_late) = 1500"
  using timer_update_sets_last_tick_to_now [of t_late]
  by (simp add: t_late_def millis_def irq_burst_def)

text \<open>
  C2, as stated: in Running with one second left and at least 1000 ms elapsed, the update
  leaves \<^verbatim>\<open>timer_value = 0\<close> and the state Done.
  The code decrements and stays in Running.
\<close>

theorem timer_update_last_second_counterexample:
  "state t_last_second = STATE_RUNNING \<and> timer_value t_last_second = 1 \<and>
   1000 \<le> fst (millis (clk t_last_second)) - last_tick t_last_second \<and>
   timer_value (timer_update t_last_second) = 0 \<and>
   state (timer_update t_last_second) = STATE_RUNNING \<and>
   state (timer_update t_last_second) \<noteq> STATE_DONE"
  by (simp add: t_last_second_def timer_update_def millis_def irq_burst_def)

text \<open>
  C2, amended: in Running with one second left and at least 1000 ms elapsed, the update
  leaves \<^verbatim>\<open>timer_value = 0\<close> and the state Running; in Running with no second left and
  at least 1000 ms elapsed, it leaves \<^verbatim>\<open>timer_value = 0\<close> and moves to Done.
\<close>

theorem timer_update_done_one_second_later:
  "(state t = STATE_RUNNING \<and> timer_value t = 1 \<and>
      1000 \<le> fst (millis (clk t)) - last_tick t \<longrightarrow>
      timer_value (timer_update t) = 0 \<and> state (timer_update t) = STATE_RUNNING) \<and>
   (state t = STATE_RUNNING \<and> timer_value t = 0 \<and>
      1000 \<le> fst (millis (clk t)) - last_tick t \<longrightarrow>
      timer_value (timer_update t) = 0 \<and> state (timer_update t) = STATE_DONE)"
  by (simp add: timer_update_def millis_def Let_def)

theorem timer_update_done_one_second_later_witness:
  "state t_last_second = STATE_RUNNING \<and> timer_value t_last_second = 1 \<and>
   1000 \<le> fst (millis (clk t_last_second)) - last_tick t_last_second \<and>
   timer_value (timer_update t_last_second) = 0 \<and>
   state (timer_update t_last_second) = STATE_RUNNING \<and>
   1000 \<le> fst (millis (clk (timer_update t_last_second)))
            - last_tick (timer_update t_last_second) \<and>
   timer_value (timer_update (timer_update t_last_second)) = 0 \<and>
   state (timer_update (timer_update t_last_second)) = STATE_DONE"
  using timer_update_done_one_second_later [of t_last_second]
    timer_update_done_one_second_later [of "timer_update t_last_second"]
  by (simp add: t_last_second_def timer_update_def millis_def irq_burst_def
      funpow_SysTick_Handler)

section \<open>Properties of the buttons\<close>

lemma pin_simps:
  "gpio_read BTN_RESET (pressing BTN_RESET) = GPIO_LOW"
  "gpio_read BTN_SET (pressing BTN_SET) = GPIO_LOW"
  "gpio_read BTN_RESET released = GPIO_HIGH"
  "gpio_read BTN_COUNTDOWN released = GPIO_HIGH"
  "gpio_read BTN_SET released = GPIO_HIGH"
  "gpio_read BTN_START released = GPIO_HIGH"
  by (simp_all add: gpio_read_def pressing_def released_def gpio_write_def get_gpio_port_def
      get_pin_mask_def BTN_RESET_def BTN_SET_def BTN_START_def BTN_COUNTDOWN_def P_def
      GPIO_PIN_def GPIO_LOW_def GPIO_HIGH_def write_FIOCLR_def write_FIOSET_def)

lemma read_button_Inr:
  assumes "read_button g pin prev k = Inr (p, prev', k')"
  shows "prev' = (if gpio_read pin g = GPIO_LOW then 1 else 0)"
    and "p = (if gpio_read pin g = GPIO_LOW \<and> prev = 0 then 1 else 0)"
    and "p = 0 \<Longrightarrow> k' = k"
    and "p \<noteq> 0 \<Longrightarrow> delay_ms 50 k = Inr k'"
  using assms
  by (auto simp: read_button_def GPIO_LOW_def Let_def split: if_splits sum.splits)

lemma read_button_no_edge:
  "gpio_read pin g \<noteq> GPIO_LOW \<or> prev \<noteq> 0 \<Longrightarrow>
   read_button g pin prev k = Inr (0, if gpio_read pin g = GPIO_LOW then 1 else 0, k)"
  by (auto simp: read_button_def GPIO_LOW_def Let_def)

lemma read_button_edge:
  "gpio_read pin g = GPIO_LOW \<Longrightarrow>
   read_button g pin 0 k = (case delay_ms 50 k of Inl e \<Rightarrow> Inl e | Inr k' \<Rightarrow> Inr (1, 1, k'))"
  by (simp add: read_button_def GPIO_LOW_def Let_def)

lemma polls_held:
  "\<forall>g\<in>set gs. gpio_read pin g = GPIO_LOW \<Longrightarrow>
   polls gs pin 1 k = Inr (replicate (length gs) 0, 1, k)"
  by (induction gs) (simp_all add: read_button_no_edge)

lemma polls_press:
  assumes "\<forall>g\<in>set (h # gs). gpio_read pin g = GPIO_LOW"
    and "polls (h # gs) pin 0 k = Inr (flags, p, k')"
  shows "flags = 1 # replicate (length gs) 0 \<and> p = 1 \<and> delay_ms 50 k = Inr k'"
proof -
  have h: "gpio_read pin h = GPIO_LOW" and gs: "\<forall>g\<in>set gs. gpio_read pin g = GPIO_LOW"
    using assms(1) by simp_all
  show ?thesis
  proof (cases "delay_ms 50 k")
    case (Inl e)
    then show ?thesis using assms(2) by (simp add: read_button_edge [OF h])
  next
    case (Inr k1)
    then show ?thesis using assms(2)
      by (simp add: read_button_edge [OF h] polls_held [OF gs])
  qed
qed

lemma polls_append:
  "polls (xs @ ys) pin p k =
     (case polls xs pin p k of
        Inl e \<Rightarrow> Inl e
      | Inr (f1, p1, k1) \<Rightarrow>
          (case polls ys pin p1 k1 of
             Inl e \<Rightarrow> Inl e
           | Inr (f2, p2, k2) \<Rightarrow> Inr (f1 @ f2, p2, k2)))"
  by (induction xs arbitrary: p k) (auto split: sum.splits prod.splits)

subsection \<open>The reset block\<close>

lemma on_reset_simps [simp]:
  "state (on_reset t) = STATE_SET" "timer_value (on_reset t) = set_value t"
  "set_value (on_reset t) = set_value t"
  by (simp_all add: on_reset_def)

lemma reset_block_edge:
  assumes "reset_block g t = Inr t'" "gpio_read BTN_RESET g = GPIO_LOW" "btn_reset_prev t = 0"
  shows "state t' = STATE_SET \<and> timer_value t' = set_value t' \<and> set_value t' = set_value t"
proof -
  from assms(1) obtain p prev' k' where
    rb: "read_button g BTN_RESET (btn_reset_prev t) (clk t) = Inr (p, prev', k')"
    and t': "t' = (if p \<noteq> 0 then on_reset (t\<lparr>btn_reset_prev := prev', clk := k'\<rparr>)
                  else t\<lparr>btn_reset_prev := prev', clk := k'\<rparr>)"
    by (auto simp: reset_block_def Let_def split: sum.splits prod.splits)
  have "p = 1" using read_button_Inr(2) [OF rb] assms(2,3) by simp
  then show ?thesis using t' by simp
qed

lemma btn_reset_prev_blocks:
  "countdown_block g t = Inr t' \<Longrightarrow> btn_reset_prev t' = btn_reset_prev t"
  "set_block g t = Inr t' \<Longrightarrow> btn_reset_prev t' = btn_reset_prev t"
  "start_block g t = Inr t' \<Longrightarrow> btn_reset_prev t' = btn_reset_prev t"
  by (auto simp: countdown_block_def set_block_def start_block_def Let_def on_countdown_def
      on_set_def on_start_def millis_def split: sum.splits prod.splits if_splits)

lemma set_value_blocks:
  "countdown_block g t = Inr t' \<Longrightarrow> set_value t' = set_value t"
  "start_block g t = Inr t' \<Longrightarrow> set_value t' = set_value t"
  "set_block g t = Inr t' \<Longrightarrow> gpio_read BTN_SET g \<noteq> GPIO_LOW \<Longrightarrow> set_value t' = set_value t"
  by (auto simp: countdown_block_def set_block_def start_block_def Let_def on_countdown_def
      on_start_def millis_def read_button_def GPIO_LOW_def
      split: sum.splits prod.splits if_splits)

lemma reset_block_returns:
  assumes "gpio_read BTN_RESET g = GPIO_LOW" "btn_reset_prev t = 0"
  shows "reset_block g t =
     (case delay_ms 50 (clk t) of
        Inl e \<Rightarrow> Inl e
      | Inr k' \<Rightarrow>
          Inr (t\<lparr>btn_reset_prev := 1, clk := k', state := STATE_SET,
                  timer_value := set_value t\<rparr>))"
  using assms
  by (simp add: reset_block_def read_button_edge on_reset_def split: sum.splits)

lemma blocks_no_edge:
  "gpio_read BTN_COUNTDOWN g \<noteq> GPIO_LOW \<Longrightarrow>
     countdown_block g t = Inr (t\<lparr>btn_countdown_prev := 0\<rparr>)"
  "gpio_read BTN_SET g \<noteq> GPIO_LOW \<Longrightarrow> set_block g t = Inr (t\<lparr>btn_set_prev := 0\<rparr>)"
  "gpio_read BTN_START g \<noteq> GPIO_LOW \<Longrightarrow> start_block g t = Inr (t\<lparr>btn_start_prev := 0\<rparr>)"
  by (simp_all add: countdown_block_def set_block_def start_block_def read_button_no_edge)

lemma delay_50_k_ticking: "delay_ms 50 k_ticking = Inr k_debounced"
  by (simp add: k_ticking_def k_debounced_def delay_ms_def delay_ms_loop.simps irq_burst_def
      funpow_SysTick_Handler)

lemma delay_50_stalled: "delay_ms 50 (clk t_late) = Inl Never_returns"
  by (simp add: t_late_def delay_ms_def delay_ms_loop.simps irq_burst_def)

lemma released_not_low:
  "gpio_read BTN_COUNTDOWN released \<noteq> GPIO_LOW" "gpio_read BTN_SET released \<noteq> GPIO_LOW"
  "gpio_read BTN_START released \<noteq> GPIO_LOW"
  by (simp_all add: pin_simps GPIO_LOW_def GPIO_HIGH_def)

lemma t_polled_fair:
  "list_all (\<lambda>d. d \<le> 1) (pending (clk t_polled))"
  "50 \<le> sum_list (pending (irq_burst (clk t_polled)))"
  by (simp_all add: t_polled_def irq_burst_def list_all_iff sum_list_replicate)


lemma t_in_sel:
  "btn_reset_prev (t_in s v) = 0" "clk (t_in s v) = k_ticking" "set_value (t_in s v) = 60"
  "state (t_in s v) = s" "timer_value (t_in s v) = v"
  by (simp_all add: t_in_def)

lemma t_in_reset:
  "(t_in s v)\<lparr>btn_reset_prev := 1, clk := k_debounced, state := STATE_SET,
      timer_value := set_value (t_in s v)\<rparr>
     = (t_in STATE_SET 60)\<lparr>btn_reset_prev := 1, clk := k_debounced\<rparr>"
  "(t_in s v)\<lparr>btn_countdown_prev := 0, btn_set_prev := 0, btn_start_prev := 0,
      btn_reset_prev := 1, clk := k_debounced, state := STATE_SET,
      timer_value := set_value (t_in s v)\<rparr>
     = (t_in STATE_SET 60)\<lparr>btn_reset_prev := 1, clk := k_debounced\<rparr>"
  by (simp_all add: t_in_def)

lemma blocks_released:
  "countdown_block released (t_in s v) = Inr (t_in s v)"
  "set_block released (t_in s v) = Inr (t_in s v)"
  "start_block released (t_in s v) = Inr (t_in s v)"
  by (simp_all add: blocks_no_edge released_not_low t_in_def)

lemma reset_press_sel:
  "at_countdown reset_press = released" "at_set reset_press = released"
  "at_start reset_press = released" "at_reset reset_press = pressing BTN_RESET"
  by (simp_all add: reset_press_def)

subsection \<open>The ranges of the data model\<close>

lemma add10_no_wrap:
  fixes s :: u32
  assumes "s \<le> 5999"
  shows "unat (s + 10) = unat s + 10"
proof -
  have "unat s \<le> 5999" using assms by (simp add: word_le_nat_alt)
  then have "unat s + unat (10 :: u32) < 2 ^ LENGTH(32)" by simp
  then have "unat (s + 10) = unat s + unat (10 :: u32)" by (simp only: unat_add_lem [THEN iffD1])
  then show ?thesis by simp
qed

lemma timer_inv_on_set: "timer_inv t \<Longrightarrow> timer_inv (on_set t)"
proof -
  assume inv: "timer_inv t"
  then have s: "set_value t \<le> 5999" by (simp add: timer_inv_def)
  have u: "unat (set_value t + 10) = unat (set_value t) + 10" using s by (rule add10_no_wrap)
  have "10 \<le> set_value t + 10" by (simp add: word_le_nat_alt u)
  then show ?thesis using inv
    by (simp add: timer_inv_def on_set_def Let_def not_less)
qed

lemma timer_inv_on_countdown: "timer_inv t \<Longrightarrow> timer_inv (on_countdown t)"
  by (simp add: timer_inv_def on_countdown_def)

lemma timer_inv_on_start: "timer_inv t \<Longrightarrow> timer_inv (on_start t)"
  by (simp add: timer_inv_def on_start_def millis_def Let_def)

lemma timer_inv_on_reset: "timer_inv t \<Longrightarrow> timer_inv (on_reset t)"
  by (simp add: timer_inv_def on_reset_def)

lemma timer_inv_frame [simp]:
  "timer_inv (t\<lparr>btn_countdown_prev := p, clk := k\<rparr>) = timer_inv t"
  "timer_inv (t\<lparr>btn_set_prev := p, clk := k\<rparr>) = timer_inv t"
  "timer_inv (t\<lparr>btn_start_prev := p, clk := k\<rparr>) = timer_inv t"
  "timer_inv (t\<lparr>btn_reset_prev := p, clk := k\<rparr>) = timer_inv t"
  by (simp_all add: timer_inv_def)

lemma timer_inv_blocks:
  "timer_inv t \<Longrightarrow> countdown_block g t = Inr t' \<Longrightarrow> timer_inv t'"
  "timer_inv t \<Longrightarrow> set_block g t = Inr t' \<Longrightarrow> timer_inv t'"
  "timer_inv t \<Longrightarrow> start_block g t = Inr t' \<Longrightarrow> timer_inv t'"
  "timer_inv t \<Longrightarrow> reset_block g t = Inr t' \<Longrightarrow> timer_inv t'"
  by (auto simp: countdown_block_def set_block_def start_block_def reset_block_def Let_def
      timer_inv_on_set timer_inv_on_countdown timer_inv_on_start timer_inv_on_reset
      split: sum.splits prod.splits if_splits)

lemma timer_inv_process_buttons:
  assumes "timer_inv t" "process_buttons ins t = Inr t'"
  shows "timer_inv t'"
proof -
  from assms(2) obtain t1 t2 t3 where
    b: "countdown_block (at_countdown ins) t = Inr t1" "set_block (at_set ins) t1 = Inr t2"
       "start_block (at_start ins) t2 = Inr t3" "reset_block (at_reset ins) t3 = Inr t'"
    by (auto simp: process_buttons_def split: sum.splits)
  show ?thesis
    using timer_inv_blocks(4) [OF timer_inv_blocks(3) [OF timer_inv_blocks(2)
      [OF timer_inv_blocks(1) [OF assms(1) b(1)] b(2)] b(3)] b(4)] .
qed

lemma dec_le:
  fixes v :: u32
  assumes "v \<le> 5999" "0 < v"
  shows "v - 1 \<le> 5999"
proof -
  have "unat v \<noteq> 0" using assms(2) by (simp add: unat_gt_0 word_neq_0_conv)
  then have "1 \<le> v" by (simp add: word_le_nat_alt)
  then have "unat (v - 1) = unat v - 1" by (simp add: unat_sub)
  moreover have "unat v \<le> 5999" using assms(1) by (simp add: word_le_nat_alt)
  ultimately show ?thesis by (simp add: word_le_nat_alt)
qed

lemma timer_inv_timer_update: "timer_inv t \<Longrightarrow> timer_inv (timer_update t)"
  by (auto simp: timer_inv_def timer_update_def millis_def Let_def dec_le)

lemma timer_inv_boot: "boot k0 = Inr t \<Longrightarrow> timer_inv t"
  by (auto simp: boot_def globals_def timer_inv_def Let_def split: sum.splits)

lemma reachable_inv: "reachable t \<Longrightarrow> timer_inv t"
  by (induction rule: reachable.induct)
     (simp_all add: timer_inv_boot timer_inv_process_buttons timer_inv_timer_update)

lemma timer_inv_funpow_on_set: "timer_inv t \<Longrightarrow> timer_inv ((on_set ^^ n) t)"
  by (induction n) (simp_all add: timer_inv_on_set)

lemma on_set_step:
  assumes "state t = STATE_SET" "set_value t = of_nat (10 * j)" "1 \<le> j" "j \<le> 599"
  shows "state (on_set t) = STATE_SET \<and>
         set_value (on_set t) = of_nat (10 * (j mod 599 + 1)) \<and>
         timer_value (on_set t) = set_value (on_set t)"
proof -
  have s10: "set_value t + 10 = (of_nat (10 * j + 10) :: u32)"
    using assms(2) by simp
  have "unat (of_nat (10 * j + 10) :: u32) = (10 * j + 10) mod 2 ^ LENGTH(32)"
    by (rule unat_of_nat)
  also have "\<dots> = 10 * j + 10" using assms(4) by simp
  finally have u: "unat (of_nat (10 * j + 10) :: u32) = 10 * j + 10" .
  have n: "unat (5999 :: u32) = 5999" by simp
  have gt: "(of_nat (10 * j + 10) :: u32) > 5999 \<longleftrightarrow> 10 * j + 10 > 5999"
    by (simp only: word_less_nat_alt u n)
  show ?thesis
  proof (cases "j = 599")
    case True
    then have "set_value t + 10 > 5999"
      unfolding s10 gt by simp
    then show ?thesis using assms(1) True
      by (simp add: on_set_def Let_def)
  next
    case False
    then have j: "j < 599" using assms(4) by simp
    then have "\<not> set_value t + 10 > 5999"
      unfolding s10 gt by simp
    then show ?thesis using assms(1) assms(2) j
      by (simp add: on_set_def Let_def)
  qed
qed

lemma on_set_funpow:
  assumes "state t = STATE_SET" "set_value t = of_nat (10 * m)" "1 \<le> m" "m \<le> 599"
  shows "state ((on_set ^^ n) t) = STATE_SET \<and>
         set_value ((on_set ^^ n) t) = of_nat (10 * ((m - 1 + n) mod 599 + 1))"
proof (induction n)
  case 0
  then show ?case using assms by simp
next
  case (Suc n)
  let ?j = "(m - 1 + n) mod 599 + 1"
  have "1 \<le> ?j" "?j \<le> 599" by simp_all
  from on_set_step [OF _ _ this] Suc
  have "state (on_set ((on_set ^^ n) t)) = STATE_SET \<and>
        set_value (on_set ((on_set ^^ n) t)) = of_nat (10 * (?j mod 599 + 1))"
    by blast
  moreover have "?j mod 599 = (m - 1 + Suc n) mod 599"
    by (simp add: mod_Suc_eq)
  ultimately show ?case by simp
qed

lemma on_set_600_from_10:
  assumes "state t = STATE_SET" "set_value t = 10"
  shows "set_value ((on_set ^^ 600) t) = 20"
  using on_set_funpow [of t 1 600] assms by simp

lemma boot_k_ticking: "boot k_ticking = Inr t_boot"
  by (simp add: boot_def systick_init_eq globals_def t_boot_def k_ticking_def)

lemma set_press_t_boot: "process_buttons set_press t_boot = Inr t_70"
  by (simp add: pin_simps set_press_def process_buttons_def countdown_block_def set_block_def
      start_block_def reset_block_def read_button_def GPIO_LOW_def GPIO_HIGH_def
      t_boot_def t_70_def k_ticking_def delay_ms_def delay_ms_loop.simps
      irq_burst_def funpow_SysTick_Handler on_set_def)

lemma reachable_t_70: "reachable t_70"
  using reach_buttons [OF reach_boot [OF boot_k_ticking] set_press_t_boot] .

section \<open>Properties of the display\<close>




















section \<open>Claims about the buttons and the countdown\<close>

text \<open>
  C6: \<^verbatim>\<open>read_button\<close> returns 1 exactly when the pin is sampled low (pressed, the
  wiring being active-low) and the stored previous level is 0, and 0 otherwise; it
  stores the current sample on every call. Without an edge it returns at once, with an
  edge it returns when the debounce delay does. Over consecutive polls of a button that
  is held, released and held again, starting from the stored level 0, it reports 1 at the
  first poll of each hold and 0 at every other poll.
\<close>

theorem read_button_edge_once:
  "(read_button g pin prev k = Inr (p, prev', k') \<longrightarrow>
      (p = 1 \<longleftrightarrow> gpio_read pin g = GPIO_LOW \<and> prev = 0) \<and>
      (p = 0 \<longleftrightarrow> \<not> (gpio_read pin g = GPIO_LOW \<and> prev = 0)) \<and>
      prev' = (if gpio_read pin g = GPIO_LOW then 1 else 0)) \<and>
   (\<not> (gpio_read pin g = GPIO_LOW \<and> prev = 0) \<longrightarrow>
      read_button g pin prev k = Inr (0, if gpio_read pin g = GPIO_LOW then 1 else 0, k)) \<and>
   (gpio_read pin g = GPIO_LOW \<and> delay_ms 50 k = Inr k1 \<longrightarrow>
      read_button g pin 0 k = Inr (1, 1, k1)) \<and>
   (polls (held @ up # again) pin 0 k = Inr (flags, prev'', k'') \<and>
      held \<noteq> [] \<and> (\<forall>g\<in>set held. gpio_read pin g = GPIO_LOW) \<and>
      gpio_read pin up \<noteq> GPIO_LOW \<and>
      again \<noteq> [] \<and> (\<forall>g\<in>set again. gpio_read pin g = GPIO_LOW) \<longrightarrow>
      flags = (1 # replicate (length held - 1) 0) @ 0 # 1 # replicate (length again - 1) 0)"
proof -
  have A: "(p = 1 \<longleftrightarrow> gpio_read pin g = GPIO_LOW \<and> prev = 0) \<and>
      (p = 0 \<longleftrightarrow> \<not> (gpio_read pin g = GPIO_LOW \<and> prev = 0)) \<and>
      prev' = (if gpio_read pin g = GPIO_LOW then 1 else 0)"
    if "read_button g pin prev k = Inr (p, prev', k')"
    using read_button_Inr(1,2) [OF that] by simp
  have A1: "read_button g pin prev k = Inr (0, if gpio_read pin g = GPIO_LOW then 1 else 0, k)"
    if "\<not> (gpio_read pin g = GPIO_LOW \<and> prev = 0)"
    using that read_button_no_edge [of pin g prev k] by blast
  have A2: "read_button g pin 0 k = Inr (1, 1, k1)"
    if "gpio_read pin g = GPIO_LOW" "delay_ms 50 k = Inr k1"
    using that by (simp add: read_button_edge)
  have B: "flags = (1 # replicate (length held - 1) 0) @ 0 # 1 # replicate (length again - 1) 0"
    if run: "polls (held @ up # again) pin 0 k = Inr (flags, prev'', k'')"
      and held: "held \<noteq> []" "\<forall>g\<in>set held. gpio_read pin g = GPIO_LOW"
      and up: "gpio_read pin up \<noteq> GPIO_LOW"
      and again: "again \<noteq> []" "\<forall>g\<in>set again. gpio_read pin g = GPIO_LOW"
  proof -
    obtain h hs where hh: "held = h # hs" using held(1) by (cases held) auto
    obtain a as where aa: "again = a # as" using again(1) by (cases again) auto
    from run obtain f1 p1 k1 f2 p2 k2 where
      r1: "polls held pin 0 k = Inr (f1, p1, k1)"
      and r2: "polls (up # again) pin p1 k1 = Inr (f2, p2, k2)"
      and fl: "flags = f1 @ f2"
      by (auto simp: polls_append split: sum.splits prod.splits)
    have f1: "f1 = 1 # replicate (length hs) 0" and p1: "p1 = 1"
      using polls_press [of h hs pin k f1 p1 k1] held(2) r1 hh by simp_all
    have ru: "read_button up pin p1 k1 = Inr (0, 0, k1)"
      using read_button_no_edge [of pin up p1 k1] up by simp
    from r2 ru obtain f3 where
      r3: "polls again pin 0 k1 = Inr (f3, p2, k2)" and f2: "f2 = 0 # f3"
      by (auto split: sum.splits prod.splits)
    have f3: "f3 = 1 # replicate (length as) 0"
      using polls_press [of a as pin k1 f3 p2 k2] again(2) r3 aa by simp
    show ?thesis using fl f1 f2 f3 hh aa by simp
  qed
  show ?thesis using A A1 A2 B by blast
qed

theorem read_button_edge_once_witness:
  "read_button (pressing BTN_SET) BTN_SET 0 k_ticking
     = Inr (1, 1, k_ticking\<lparr>systick_counter := 50, pending := [0, 50, 0, 50, 0, 50]\<rparr>) \<and>
   gpio_read BTN_SET (pressing BTN_SET) = GPIO_LOW \<and>
   delay_ms 50 k_ticking = Inr (k_ticking\<lparr>systick_counter := 50, pending := [0, 50, 0, 50, 0, 50]\<rparr>) \<and>
   gpio_read BTN_SET released \<noteq> GPIO_LOW \<and>
   read_button released BTN_SET 1 k_ticking = Inr (0, 0, k_ticking) \<and>
   list_all (\<lambda>g. gpio_read BTN_SET g = GPIO_LOW) [pressing BTN_SET, pressing BTN_SET, pressing BTN_SET] \<and>
   list_all (\<lambda>g. gpio_read BTN_SET g = GPIO_LOW) [pressing BTN_SET, pressing BTN_SET] \<and>
   polls ([pressing BTN_SET, pressing BTN_SET, pressing BTN_SET] @ released
            # [pressing BTN_SET, pressing BTN_SET]) BTN_SET 0 k_ticking
     = Inr ([1, 0, 0, 0, 1, 0], 1, k_two_presses)"
  using
    read_button_edge_once [of "pressing BTN_SET" BTN_SET 0 k_ticking 1 1
      "k_ticking\<lparr>systick_counter := 50, pending := [0, 50, 0, 50, 0, 50]\<rparr>"
      "k_ticking\<lparr>systick_counter := 50, pending := [0, 50, 0, 50, 0, 50]\<rparr>"
      "[pressing BTN_SET, pressing BTN_SET, pressing BTN_SET]" released
      "[pressing BTN_SET, pressing BTN_SET]" "[1, 0, 0, 0, 1, 0]" 1 k_two_presses]
    read_button_edge_once [of released BTN_SET 1 k_ticking 0 0 k_ticking k_ticking
      "[pressing BTN_SET]" released "[pressing BTN_SET]" "[1, 0, 1]" 1 k_two_presses]
  by (simp add: pin_simps read_button_def GPIO_LOW_def GPIO_HIGH_def k_ticking_def
      k_two_presses_def delay_ms_def delay_ms_loop.simps irq_burst_def funpow_SysTick_Handler)

text \<open>
  C7: \<^verbatim>\<open>set_value\<close> within 10 .. 5999 and \<^verbatim>\<open>timer_value\<close> at most 5999 hold in every
  state the main loop can reach from boot, and are kept by \<^verbatim>\<open>process_buttons\<close> and by
  \<^verbatim>\<open>timer_update\<close> from any state in which they hold. The Set-mode increment adds 10,
  replaces a result above 5999 by 10 and copies the new \<^verbatim>\<open>set_value\<close> into
  \<^verbatim>\<open>timer_value\<close>; any number of increments keeps the ranges, and 600 increments from
  10 end at 20, after one wrap at the 599th.
\<close>

theorem ranges_preserved:
  "(reachable t \<longrightarrow> timer_inv t) \<and>
   (timer_inv t \<and> process_buttons ins t = Inr t' \<longrightarrow> timer_inv t') \<and>
   (timer_inv t \<longrightarrow> timer_inv (timer_update t)) \<and>
   (timer_inv t \<and> state t = STATE_SET \<longrightarrow>
      set_value (on_set t) = (if set_value t + 10 > 5999 then 10 else set_value t + 10) \<and>
      timer_value (on_set t) = set_value (on_set t)) \<and>
   (timer_inv t \<longrightarrow> timer_inv ((on_set ^^ n) t)) \<and>
   (state t = STATE_SET \<and> set_value t = 10 \<longrightarrow> set_value ((on_set ^^ 600) t) = 20)"
proof -
  have A: "timer_inv t" if "reachable t" using that by (rule reachable_inv)
  have B: "timer_inv t'" if "timer_inv t" "process_buttons ins t = Inr t'"
    using that by (rule timer_inv_process_buttons)
  have C: "timer_inv (timer_update t)" if "timer_inv t"
    using that by (rule timer_inv_timer_update)
  have D: "set_value (on_set t) = (if set_value t + 10 > 5999 then 10 else set_value t + 10) \<and>
      timer_value (on_set t) = set_value (on_set t)" if "state t = STATE_SET"
    using that by (simp add: on_set_def Let_def)
  have E: "timer_inv ((on_set ^^ n) t)" if "timer_inv t"
    using that by (rule timer_inv_funpow_on_set)
  have F: "set_value ((on_set ^^ 600) t) = 20" if "state t = STATE_SET" "set_value t = 10"
    using that by (rule on_set_600_from_10)
  show ?thesis using A B C D E F by blast
qed

theorem ranges_preserved_witness:
  "reachable t_boot \<and> timer_inv t_boot \<and> set_value t_boot = 60 \<and>
   process_buttons set_press t_boot = Inr t_70 \<and> timer_inv t_70 \<and>
   timer_inv (timer_update t_boot) \<and>
   timer_inv t_top \<and> state t_top = STATE_SET \<and> set_value t_top = 5990 \<and>
   set_value (on_set t_top) = 10 \<and> timer_value (on_set t_top) = 10 \<and>
   timer_inv ((on_set ^^ 600) t_top) \<and>
   state t_ten = STATE_SET \<and> set_value t_ten = 10 \<and> set_value ((on_set ^^ 600) t_ten) = 20"
  using ranges_preserved [of t_boot set_press t_70 600]
    ranges_preserved [of t_top set_press t_70 600]
    ranges_preserved [of t_ten set_press t_70 600]
    reach_boot [OF boot_k_ticking] set_press_t_boot
  by (simp add: t_boot_def t_top_def t_ten_def timer_inv_def)

text \<open>
  C8: whatever the state and the remaining time, a Reset press that \<^verbatim>\<open>read_button\<close>
  reports (pin low, stored previous level 0) leaves the state Set and \<^verbatim>\<open>timer_value\<close>
  equal to \<^verbatim>\<open>set_value\<close>, with \<^verbatim>\<open>set_value\<close> as it was. The reset block returns
  exactly when its debounce delay does, and then with this result; it never returns when
  the delay does not; the delay, and with it the block, does return on a clock that is
  polled at least once per millisecond and keeps ticking for 50 ms. The same holds for
  a whole \<^verbatim>\<open>process_buttons\<close> call: after the three earlier blocks it ends in the
  reset of the state they left, and when no other button is down it is the reset of the
  state it started from.
\<close>

theorem reset_returns_to_set:
  "(gpio_read BTN_RESET g = GPIO_LOW \<and> btn_reset_prev t = 0 \<and> delay_ms 50 (clk t) = Inr k' \<longrightarrow>
      reset_block g t
        = Inr (t\<lparr>btn_reset_prev := 1, clk := k', state := STATE_SET,
                  timer_value := set_value t\<rparr>)) \<and>
   (gpio_read BTN_RESET g = GPIO_LOW \<and> btn_reset_prev t = 0 \<and> delay_ms 50 (clk t) = Inl e \<longrightarrow>
      reset_block g t = Inl e) \<and>
   (gpio_read BTN_RESET g = GPIO_LOW \<and> btn_reset_prev t = 0 \<and>
      (\<forall>d\<in>set (pending (clk t)). d \<le> 1) \<and> 50 \<le> sum_list (pending (irq_burst (clk t))) \<longrightarrow>
      (\<exists>r. reset_block g t = Inr r \<and> state r = STATE_SET \<and>
           timer_value r = set_value r \<and> set_value r = set_value t)) \<and>
   (reset_block g t = Inr t' \<and> gpio_read BTN_RESET g = GPIO_LOW \<and> btn_reset_prev t = 0 \<longrightarrow>
      state t' = STATE_SET \<and> timer_value t' = set_value t' \<and> set_value t' = set_value t) \<and>
   (countdown_block (at_countdown ins) t = Inr t1 \<and> set_block (at_set ins) t1 = Inr t2 \<and>
      start_block (at_start ins) t2 = Inr t3 \<and>
      gpio_read BTN_RESET (at_reset ins) = GPIO_LOW \<and> btn_reset_prev t = 0 \<and>
      delay_ms 50 (clk t3) = Inr k3 \<longrightarrow>
      process_buttons ins t
        = Inr (t3\<lparr>btn_reset_prev := 1, clk := k3, state := STATE_SET,
                   timer_value := set_value t3\<rparr>)) \<and>
   (gpio_read BTN_COUNTDOWN (at_countdown ins) \<noteq> GPIO_LOW \<and>
      gpio_read BTN_SET (at_set ins) \<noteq> GPIO_LOW \<and>
      gpio_read BTN_START (at_start ins) \<noteq> GPIO_LOW \<and>
      gpio_read BTN_RESET (at_reset ins) = GPIO_LOW \<and> btn_reset_prev t = 0 \<and>
      delay_ms 50 (clk t) = Inr k' \<longrightarrow>
      process_buttons ins t
        = Inr (t\<lparr>btn_countdown_prev := 0, btn_set_prev := 0, btn_start_prev := 0,
                  btn_reset_prev := 1, clk := k', state := STATE_SET,
                  timer_value := set_value t\<rparr>)) \<and>
   (process_buttons ins t = Inr t'' \<and> gpio_read BTN_RESET (at_reset ins) = GPIO_LOW \<and>
      btn_reset_prev t = 0 \<longrightarrow>
      state t'' = STATE_SET \<and> timer_value t'' = set_value t'' \<and>
      (gpio_read BTN_SET (at_set ins) \<noteq> GPIO_LOW \<longrightarrow> set_value t'' = set_value t))"
proof -
  have R: "reset_block g t
        = Inr (t\<lparr>btn_reset_prev := 1, clk := k', state := STATE_SET,
                  timer_value := set_value t\<rparr>)"
    if "gpio_read BTN_RESET g = GPIO_LOW" "btn_reset_prev t = 0" "delay_ms 50 (clk t) = Inr k'"
    for g t k'
    using that by (simp add: reset_block_returns)
  have N: "reset_block g t = Inl e"
    if "gpio_read BTN_RESET g = GPIO_LOW" "btn_reset_prev t = 0" "delay_ms 50 (clk t) = Inl e"
    using that by (simp add: reset_block_returns)
  have F: "\<exists>r. reset_block g t = Inr r \<and> state r = STATE_SET \<and>
           timer_value r = set_value r \<and> set_value r = set_value t"
    if e: "gpio_read BTN_RESET g = GPIO_LOW" "btn_reset_prev t = 0"
      and p: "\<forall>d\<in>set (pending (clk t)). d \<le> 1" "50 \<le> sum_list (pending (irq_burst (clk t)))"
  proof -
    have "unat (50 :: u32) \<le> sum_list (pending (irq_burst (clk t)))" using p(2) by simp
    from delay_ms_returns [OF p(1) this] obtain k1 where "delay_ms 50 (clk t) = Inr k1" ..
    from R [OF e this] show ?thesis by simp
  qed
  have A: "state t' = STATE_SET \<and> timer_value t' = set_value t' \<and> set_value t' = set_value t"
    if "reset_block g t = Inr t'" "gpio_read BTN_RESET g = GPIO_LOW" "btn_reset_prev t = 0"
    using that by (rule reset_block_edge)
  have P: "process_buttons ins t
        = Inr (t3\<lparr>btn_reset_prev := 1, clk := k3, state := STATE_SET,
                   timer_value := set_value t3\<rparr>)"
    if b: "countdown_block (at_countdown ins) t = Inr t1" "set_block (at_set ins) t1 = Inr t2"
      "start_block (at_start ins) t2 = Inr t3"
      and e: "gpio_read BTN_RESET (at_reset ins) = GPIO_LOW" "btn_reset_prev t = 0"
      and d: "delay_ms 50 (clk t3) = Inr k3"
  proof -
    have "btn_reset_prev t3 = 0"
      using btn_reset_prev_blocks(1) [OF b(1)] btn_reset_prev_blocks(2) [OF b(2)]
        btn_reset_prev_blocks(3) [OF b(3)] e(2) by simp
    from R [OF e(1) this d] show ?thesis by (simp add: process_buttons_def b)
  qed
  have Q: "process_buttons ins t
        = Inr (t\<lparr>btn_countdown_prev := 0, btn_set_prev := 0, btn_start_prev := 0,
                  btn_reset_prev := 1, clk := k', state := STATE_SET,
                  timer_value := set_value t\<rparr>)"
    if u: "gpio_read BTN_COUNTDOWN (at_countdown ins) \<noteq> GPIO_LOW"
      "gpio_read BTN_SET (at_set ins) \<noteq> GPIO_LOW"
      "gpio_read BTN_START (at_start ins) \<noteq> GPIO_LOW"
      and e: "gpio_read BTN_RESET (at_reset ins) = GPIO_LOW" "btn_reset_prev t = 0"
      and d: "delay_ms 50 (clk t) = Inr k'"
  proof -
    let ?t3 = "t\<lparr>btn_countdown_prev := 0, btn_set_prev := 0, btn_start_prev := 0\<rparr>"
    have "reset_block (at_reset ins) ?t3
        = Inr (?t3\<lparr>btn_reset_prev := 1, clk := k', state := STATE_SET,
                   timer_value := set_value ?t3\<rparr>)"
      by (rule R) (use e d in simp_all)
    then show ?thesis
      by (simp add: process_buttons_def blocks_no_edge u)
  qed
  have B: "state t'' = STATE_SET \<and> timer_value t'' = set_value t'' \<and>
      (gpio_read BTN_SET (at_set ins) \<noteq> GPIO_LOW \<longrightarrow> set_value t'' = set_value t)"
    if a: "process_buttons ins t = Inr t''" "gpio_read BTN_RESET (at_reset ins) = GPIO_LOW"
      "btn_reset_prev t = 0"
  proof -
    from a(1) obtain t1 t2 t3 where
      b: "countdown_block (at_countdown ins) t = Inr t1" "set_block (at_set ins) t1 = Inr t2"
         "start_block (at_start ins) t2 = Inr t3" "reset_block (at_reset ins) t3 = Inr t''"
      by (auto simp: process_buttons_def split: sum.splits)
    have "btn_reset_prev t3 = 0"
      using btn_reset_prev_blocks(1) [OF b(1)] btn_reset_prev_blocks(2) [OF b(2)]
        btn_reset_prev_blocks(3) [OF b(3)] a(3) by simp
    then have r: "state t'' = STATE_SET \<and> timer_value t'' = set_value t'' \<and>
        set_value t'' = set_value t3"
      using reset_block_edge [OF b(4) a(2)] by simp
    have "set_value t3 = set_value t" if "gpio_read BTN_SET (at_set ins) \<noteq> GPIO_LOW"
      using set_value_blocks(1) [OF b(1)] set_value_blocks(3) [OF b(2) that]
        set_value_blocks(2) [OF b(3)] by simp
    then show ?thesis using r by simp
  qed
  show ?thesis using R [of g t k'] N F A P Q B by blast
qed

theorem reset_returns_to_set_witness:
  "gpio_read BTN_RESET (pressing BTN_RESET) = GPIO_LOW \<and>
   gpio_read BTN_COUNTDOWN (at_countdown reset_press) \<noteq> GPIO_LOW \<and>
   gpio_read BTN_SET (at_set reset_press) \<noteq> GPIO_LOW \<and>
   gpio_read BTN_START (at_start reset_press) \<noteq> GPIO_LOW \<and>
   gpio_read BTN_RESET (at_reset reset_press) = GPIO_LOW \<and>
   delay_ms 50 k_ticking = Inr k_debounced \<and>
   reset_block (pressing BTN_RESET) (t_in STATE_SET 60)
     = Inr ((t_in STATE_SET 60)\<lparr>btn_reset_prev := 1, clk := k_debounced\<rparr>) \<and>
   reset_block (pressing BTN_RESET) (t_in STATE_RUNNING 42)
     = Inr ((t_in STATE_SET 60)\<lparr>btn_reset_prev := 1, clk := k_debounced\<rparr>) \<and>
   reset_block (pressing BTN_RESET) (t_in STATE_PAUSED 17)
     = Inr ((t_in STATE_SET 60)\<lparr>btn_reset_prev := 1, clk := k_debounced\<rparr>) \<and>
   reset_block (pressing BTN_RESET) (t_in STATE_DONE 0)
     = Inr ((t_in STATE_SET 60)\<lparr>btn_reset_prev := 1, clk := k_debounced\<rparr>) \<and>
   process_buttons reset_press (t_in STATE_SET 60)
     = Inr ((t_in STATE_SET 60)\<lparr>btn_reset_prev := 1, clk := k_debounced\<rparr>) \<and>
   process_buttons reset_press (t_in STATE_RUNNING 42)
     = Inr ((t_in STATE_SET 60)\<lparr>btn_reset_prev := 1, clk := k_debounced\<rparr>) \<and>
   process_buttons reset_press (t_in STATE_PAUSED 17)
     = Inr ((t_in STATE_SET 60)\<lparr>btn_reset_prev := 1, clk := k_debounced\<rparr>) \<and>
   process_buttons reset_press (t_in STATE_DONE 0)
     = Inr ((t_in STATE_SET 60)\<lparr>btn_reset_prev := 1, clk := k_debounced\<rparr>) \<and>
   countdown_block (at_countdown reset_press) (t_in STATE_RUNNING 42) = Inr (t_in STATE_RUNNING 42) \<and>
   set_block (at_set reset_press) (t_in STATE_RUNNING 42) = Inr (t_in STATE_RUNNING 42) \<and>
   start_block (at_start reset_press) (t_in STATE_RUNNING 42) = Inr (t_in STATE_RUNNING 42) \<and>
   state ((t_in STATE_SET 60)\<lparr>btn_reset_prev := 1, clk := k_debounced\<rparr>) = STATE_SET \<and>
   timer_value ((t_in STATE_SET 60)\<lparr>btn_reset_prev := 1, clk := k_debounced\<rparr>) = 60 \<and>
   set_value ((t_in STATE_SET 60)\<lparr>btn_reset_prev := 1, clk := k_debounced\<rparr>) = 60 \<and>
   set_value (t_in STATE_RUNNING 42) = 60 \<and>
   btn_reset_prev t_late = 0 \<and> state t_late = STATE_RUNNING \<and>
   delay_ms 50 (clk t_late) = Inl Never_returns \<and>
   reset_block (pressing BTN_RESET) t_late = Inl Never_returns \<and>
   btn_reset_prev t_polled = 0 \<and> state t_polled = STATE_DONE \<and>
   list_all (\<lambda>d. d \<le> 1) (pending (clk t_polled)) \<and>
   50 \<le> sum_list (pending (irq_burst (clk t_polled))) \<and>
   (case reset_block (pressing BTN_RESET) t_polled of
      Inl e \<Rightarrow> False
    | Inr r \<Rightarrow> state r = STATE_SET \<and> timer_value r = 60 \<and> set_value r = 60)"
proof -
  let ?g = "pressing BTN_RESET"
  let ?done = "(t_in STATE_SET 60)\<lparr>btn_reset_prev := 1, clk := k_debounced\<rparr>"
  note low = pin_simps(1)
  have up: "gpio_read BTN_COUNTDOWN (at_countdown reset_press) \<noteq> GPIO_LOW"
    "gpio_read BTN_SET (at_set reset_press) \<noteq> GPIO_LOW"
    "gpio_read BTN_START (at_start reset_press) \<noteq> GPIO_LOW"
    "gpio_read BTN_RESET (at_reset reset_press) = GPIO_LOW"
    by (simp_all only: reset_press_sel released_not_low low not_False_eq_True)
  have blk: "reset_block ?g (t_in s v) = Inr ?done" for s v
  proof -
    have c: "gpio_read BTN_RESET ?g = GPIO_LOW \<and> btn_reset_prev (t_in s v) = 0 \<and>
       delay_ms 50 (clk (t_in s v)) = Inr k_debounced"
      by (simp add: low t_in_sel delay_50_k_ticking)
    have "reset_block ?g (t_in s v)
        = Inr ((t_in s v)\<lparr>btn_reset_prev := 1, clk := k_debounced, state := STATE_SET,
                 timer_value := set_value (t_in s v)\<rparr>)"
      using reset_returns_to_set [where g = ?g and t = "t_in s v" and k' = k_debounced] c
      by blast
    then show ?thesis by (simp only: t_in_reset)
  qed
  have pb: "process_buttons reset_press (t_in s v) = Inr ?done" for s v
  proof -
    have c: "gpio_read BTN_COUNTDOWN (at_countdown reset_press) \<noteq> GPIO_LOW \<and>
      gpio_read BTN_SET (at_set reset_press) \<noteq> GPIO_LOW \<and>
      gpio_read BTN_START (at_start reset_press) \<noteq> GPIO_LOW \<and>
      gpio_read BTN_RESET (at_reset reset_press) = GPIO_LOW \<and> btn_reset_prev (t_in s v) = 0 \<and>
      delay_ms 50 (clk (t_in s v)) = Inr k_debounced"
      using up by (simp add: t_in_sel delay_50_k_ticking)
    have "process_buttons reset_press (t_in s v)
        = Inr ((t_in s v)\<lparr>btn_countdown_prev := 0, btn_set_prev := 0, btn_start_prev := 0,
                  btn_reset_prev := 1, clk := k_debounced, state := STATE_SET,
                  timer_value := set_value (t_in s v)\<rparr>)"
      using reset_returns_to_set [where ins = reset_press and t = "t_in s v"
          and k' = k_debounced] c
      by blast
    then show ?thesis by (simp only: t_in_reset)
  qed
  have same: "countdown_block (at_countdown reset_press) (t_in STATE_RUNNING 42)
                = Inr (t_in STATE_RUNNING 42)"
    "set_block (at_set reset_press) (t_in STATE_RUNNING 42) = Inr (t_in STATE_RUNNING 42)"
    "start_block (at_start reset_press) (t_in STATE_RUNNING 42) = Inr (t_in STATE_RUNNING 42)"
    by (simp_all only: reset_press_sel blocks_released)
  have seq: "process_buttons reset_press (t_in STATE_RUNNING 42) = Inr ?done"
  proof -
    have c: "countdown_block (at_countdown reset_press) (t_in STATE_RUNNING 42)
          = Inr (t_in STATE_RUNNING 42) \<and>
        set_block (at_set reset_press) (t_in STATE_RUNNING 42) = Inr (t_in STATE_RUNNING 42) \<and>
        start_block (at_start reset_press) (t_in STATE_RUNNING 42) = Inr (t_in STATE_RUNNING 42) \<and>
        gpio_read BTN_RESET (at_reset reset_press) = GPIO_LOW \<and>
        btn_reset_prev (t_in STATE_RUNNING 42) = 0 \<and>
        delay_ms 50 (clk (t_in STATE_RUNNING 42)) = Inr k_debounced"
      using same up by (simp add: t_in_sel delay_50_k_ticking)
    have "process_buttons reset_press (t_in STATE_RUNNING 42)
        = Inr ((t_in STATE_RUNNING 42)\<lparr>btn_reset_prev := 1, clk := k_debounced,
                 state := STATE_SET, timer_value := set_value (t_in STATE_RUNNING 42)\<rparr>)"
      using reset_returns_to_set [where ins = reset_press and t = "t_in STATE_RUNNING 42"
          and ?t1.0 = "t_in STATE_RUNNING 42" and ?t2.0 = "t_in STATE_RUNNING 42"
          and ?t3.0 = "t_in STATE_RUNNING 42" and ?k3.0 = k_debounced] c
      by blast
    then show ?thesis by (simp only: t_in_reset)
  qed
  have old: "state ?done = STATE_SET \<and> timer_value ?done = set_value ?done \<and>
      set_value ?done = set_value (t_in STATE_RUNNING 42)"
  proof -
    have c: "reset_block ?g (t_in STATE_RUNNING 42) = Inr ?done \<and>
        gpio_read BTN_RESET ?g = GPIO_LOW \<and> btn_reset_prev (t_in STATE_RUNNING 42) = 0"
      by (simp add: blk low t_in_sel)
    show ?thesis
      using reset_returns_to_set [where g = ?g and t = "t_in STATE_RUNNING 42" and t' = ?done] c
      by blast
  qed
  have old2: "state ?done = STATE_SET \<and> timer_value ?done = set_value ?done \<and>
      set_value ?done = set_value (t_in STATE_PAUSED 17)"
  proof -
    have c: "process_buttons reset_press (t_in STATE_PAUSED 17) = Inr ?done \<and>
        gpio_read BTN_RESET (at_reset reset_press) = GPIO_LOW \<and>
        btn_reset_prev (t_in STATE_PAUSED 17) = 0"
      using up by (simp add: pb t_in_sel)
    show ?thesis
      using reset_returns_to_set [where ins = reset_press and t = "t_in STATE_PAUSED 17"
          and t'' = ?done] c up(2)
      by blast
  qed
  have vals: "state ?done = STATE_SET" "timer_value ?done = 60" "set_value ?done = 60"
    "set_value (t_in STATE_RUNNING 42) = 60"
    using old by (simp_all add: t_in_sel)
  have late: "btn_reset_prev t_late = 0" "state t_late = STATE_RUNNING"
    by (simp_all add: t_late_def)
  have nr: "reset_block ?g t_late = Inl Never_returns"
  proof -
    have c: "gpio_read BTN_RESET ?g = GPIO_LOW \<and> btn_reset_prev t_late = 0 \<and>
        delay_ms 50 (clk t_late) = Inl Never_returns"
      by (simp add: low late delay_50_stalled)
    show ?thesis
      using reset_returns_to_set [where g = ?g and t = t_late and e = Never_returns] c
      by blast
  qed
  have pol: "btn_reset_prev t_polled = 0" "state t_polled = STATE_DONE" "set_value t_polled = 60"
    by (simp_all add: t_polled_def)
  have fair: "case reset_block ?g t_polled of
      Inl e \<Rightarrow> False
    | Inr r \<Rightarrow> state r = STATE_SET \<and> timer_value r = 60 \<and> set_value r = 60"
  proof -
    have c: "gpio_read BTN_RESET ?g = GPIO_LOW \<and> btn_reset_prev t_polled = 0 \<and>
        (\<forall>d\<in>set (pending (clk t_polled)). d \<le> 1) \<and>
        50 \<le> sum_list (pending (irq_burst (clk t_polled)))"
      using t_polled_fair by (simp add: low pol list_all_iff)
    have "\<exists>r. reset_block ?g t_polled = Inr r \<and> state r = STATE_SET \<and>
           timer_value r = set_value r \<and> set_value r = set_value t_polled"
      using reset_returns_to_set [where g = ?g and t = t_polled] c by blast
    then show ?thesis by (auto simp: pol)
  qed
  show ?thesis
    by (intro conjI)
      (rule low up delay_50_k_ticking blk pb same vals late delay_50_stalled nr pol
        t_polled_fair fair)+
qed

section \<open>Claims about the display\<close>



end
